theory Spec2Isabelle
  imports Main "HOL-Library.Word" "HOL-Library.Multiset" "HOL-Library.List_Lexorder"
begin

section \<open>Python values\<close>

text \<open>
  A Python \<open>str\<close> is a sequence of Unicode code points and is modelled as a list of
  natural numbers; \<open>bytes\<close> is a list of 8-bit words. The function \<open>u\<close> writes a
  \<open>str\<close> constant from an Isabelle string literal (ASCII only). Python's unbounded
  \<open>int\<close> is \<open>int\<close>. Exceptions are values of \<open>exn\<close>.
\<close>

type_synonym str = "nat list"
type_synonym bytes = "8 word list"

definition u :: "string \<Rightarrow> str" where
  "u s = map of_char s"

datatype exn =
    PermissionError
  | IntegrityError
  | UnicodeEncodeError
  | UnicodeDecodeError
  | InvalidToken
  | AttributeError
  | KeyError
  | ValueError
  | OverflowError
  | OSError

text \<open>\<open>str(i)\<close> for an integer, as \<open>'{}'.format(i)\<close> prints it.\<close>

function dec_nat :: "nat \<Rightarrow> str" where
  "dec_nat n = (if n < 10 then [48 + n] else dec_nat (n div 10) @ [48 + n mod 10])"
  by pat_completeness auto
termination
  by (relation "measure id") auto

declare dec_nat.simps [simp del]

definition str_int :: "int \<Rightarrow> str" where
  "str_int i = (if i < 0 then 45 # dec_nat (nat (- i)) else dec_nat (nat i))"

section \<open>The retry classifier: the regular expression of \<open>execute\<close>\<close>

text \<open>
  \<^verbatim>\<open>regex.search(r'(?|error\((\d+)\)|.+:.+:\s{1}(.+))', stderr).group(1)\<close>

  The pattern is matched by backtracking, written in continuation-passing style: each
  combinator takes the continuation that matches the rest of the pattern and returns the
  first success in the order a backtracking matcher tries them. \<open>\d\<close> is the Unicode
  category Nd (decimal digits, as ranges of code points, Unicode 14), \<open>\s\<close> is the
  Unicode property White_Space, and \<open>.\<close> is any character but the line feed.
\<close>

definition nd_ranges :: "(nat \<times> nat) list" where
  "nd_ranges =
    [(48, 57), (1632, 1641), (1776, 1785), (1984, 1993), (2406, 2415), (2534, 2543),
     (2662, 2671), (2790, 2799), (2918, 2927), (3046, 3055), (3174, 3183), (3302, 3311),
     (3430, 3439), (3558, 3567), (3664, 3673), (3792, 3801), (3872, 3881), (4160, 4169),
     (4240, 4249), (6112, 6121), (6160, 6169), (6470, 6479), (6608, 6617), (6784, 6793),
     (6800, 6809), (6992, 7001), (7088, 7097), (7232, 7241), (7248, 7257), (42528, 42537),
     (43216, 43225), (43264, 43273), (43472, 43481), (43504, 43513), (43600, 43609),
     (44016, 44025), (65296, 65305), (66720, 66729), (68912, 68921), (69734, 69743),
     (69872, 69881), (69942, 69951), (70096, 70105), (70384, 70393), (70736, 70745),
     (70864, 70873), (71248, 71257), (71360, 71369), (71472, 71481), (71904, 71913),
     (72016, 72025), (72784, 72793), (73040, 73049), (73120, 73129), (92768, 92777),
     (92864, 92873), (93008, 93017), (120782, 120831), (123200, 123209), (123632, 123641),
     (125264, 125273), (130032, 130041)]"

definition is_digit :: "nat \<Rightarrow> bool" where
  "is_digit c = list_ex (\<lambda>(lo, hi). lo \<le> c \<and> c \<le> hi) nd_ranges"

definition is_space :: "nat \<Rightarrow> bool" where
  "is_space c =
     (c \<in> set [9, 10, 11, 12, 13, 32, 133, 160, 5760, 8192, 8193, 8194, 8195, 8196, 8197,
               8198, 8199, 8200, 8201, 8202, 8232, 8233, 8239, 8287, 12288])"

definition is_any :: "nat \<Rightarrow> bool" where
  "is_any c = (c \<noteq> 10)"

text \<open>A literal text, then the continuation.\<close>

fun rlit :: "str \<Rightarrow> (str \<Rightarrow> 'a option) \<Rightarrow> str \<Rightarrow> 'a option" where
  "rlit [] k s = k s"
| "rlit (c # cs) k [] = None"
| "rlit (c # cs) k (x # xs) = (if x = c then rlit cs k xs else None)"

text \<open>One character of a class, then the continuation.\<close>

fun rone :: "(nat \<Rightarrow> bool) \<Rightarrow> (str \<Rightarrow> 'a option) \<Rightarrow> str \<Rightarrow> 'a option" where
  "rone p k [] = None"
| "rone p k (x # xs) = (if p x then k xs else None)"

text \<open>
  \<open>X+\<close> for a character class, greedy: it first tries to take one more character and
  gives characters back one at a time. The continuation receives the text matched by
  the repetition (for a capturing group) and the rest of the input.
\<close>

fun rplus :: "(nat \<Rightarrow> bool) \<Rightarrow> (str \<Rightarrow> str \<Rightarrow> 'a option) \<Rightarrow> str \<Rightarrow> str \<Rightarrow> 'a option" where
  "rplus p k acc [] = None"
| "rplus p k acc (x # xs) =
     (if p x then
        (case rplus p k (acc @ [x]) xs of
           Some r \<Rightarrow> Some r
         | None \<Rightarrow> k (acc @ [x]) xs)
      else None)"

text \<open>\<^verbatim>\<open>error\((\d+)\)\<close>\<close>

definition alt1 :: "str \<Rightarrow> str option" where
  "alt1 = rlit (u ''error('') (rplus is_digit (\<lambda>g. rlit (u '')'') (\<lambda>_. Some g)) [])"

text \<open>\<^verbatim>\<open>.+:.+:\s{1}(.+)\<close>\<close>

definition alt2 :: "str \<Rightarrow> str option" where
  "alt2 =
     rplus is_any (\<lambda>_. rlit (u '':'')
       (rplus is_any (\<lambda>_. rlit (u '':'')
          (rone is_space (rplus is_any (\<lambda>g _. Some g) []))) [])) []"

text \<open>The branch-reset group: the first alternative is tried before the second.\<close>

definition match_here :: "str \<Rightarrow> str option" where
  "match_here s = (case alt1 s of Some g \<Rightarrow> Some g | None \<Rightarrow> alt2 s)"

text \<open>
  \<open>search\<close> tries every start position from the left, the end of the text included,
  and returns group 1 of the first match; \<open>None\<close> is Python's \<open>None\<close> (no match).
\<close>

fun search :: "str \<Rightarrow> str option" where
  "search [] = match_here []"
| "search (c # cs) =
     (case match_here (c # cs) of Some g \<Rightarrow> Some g | None \<Rightarrow> search cs)"

section \<open>The object and the outside world\<close>

text \<open>\<open>self.status\<close>, with the keys of the dictionary as fields.\<close>

record status =
  error :: int
  successcount :: int
  failedcount :: int
  success :: "str list"
  failed :: "str list"
  attempts :: "str \<rightharpoonup> int"
  messages :: "str list"

text \<open>The effects of a run on the outside world, in the order they happen.\<close>

datatype event =
    Spawn str
  | Sleep int
  | Syslog str
  | Print str
  | StderrWrite str
  | Makedirs str
  | PrintStatus

text \<open>
  A row of the table \<open>cifstab\<close>: the name in clear, the six other columns as the
  ciphertexts \<open>encrypt\<close> stored.
\<close>

record row =
  r_name :: str
  r_address :: bytes
  r_sharename :: bytes
  r_mountpoint :: bytes
  r_options :: bytes
  r_user :: bytes
  r_password :: bytes

text \<open>
  \<open>cryptography.fernet.Fernet\<close> is a library outside the repository: the key object
  is a pair of functions. Encryption draws an initialisation vector and reads the
  clock, given here as a number; decryption returns \<open>None\<close> where the library raises
  \<open>InvalidToken\<close>.
\<close>

record fernet =
  fernet_encrypt :: "nat \<Rightarrow> bytes \<Rightarrow> bytes"
  fernet_decrypt :: "bytes \<Rightarrow> bytes option"

text \<open>
  The \<open>Cifscloak\<close> object. \<open>cifstab\<close> is the content of the table behind
  \<open>self.cursor\<close>, in the order a scan returns the rows (see \<open>sql_insert\<close>). \<open>trace\<close> is not an attribute
  of the Python object: it collects the events of the run.
\<close>

record cifscloak =
  status :: status
  retries :: int
  waitsecs :: int
  cifstab :: "row list"
  key :: fernet
  trace :: "event list"

text \<open>
  What the operating system answers. \<open>proc\<close> gives the return code and the standard
  error text of a command, which may depend on everything that happened before;
  \<open>path_exists\<close> is \<open>os.path.exists\<close>; \<open>makedirs\<close> is \<open>os.makedirs\<close>, \<open>None\<close> when it
  succeeds and the exception it raises otherwise. Starting the shell of a command,
  writing to the system log and printing are taken to succeed.
\<close>

record env =
  proc :: "event list \<Rightarrow> str \<Rightarrow> int \<times> str"
  path_exists :: "event list \<Rightarrow> str \<Rightarrow> bool"
  makedirs :: "event list \<Rightarrow> str \<Rightarrow> exn option"

definition emit :: "event \<Rightarrow> cifscloak \<Rightarrow> cifscloak" where
  "emit ev self = self\<lparr>trace := trace self @ [ev]\<rparr>"

definition set_error :: "cifscloak \<Rightarrow> cifscloak" where
  "set_error self = self\<lparr>status := (status self)\<lparr>error := 1\<rparr>\<rparr>"

definition add_message :: "str \<Rightarrow> cifscloak \<Rightarrow> cifscloak" where
  "add_message m self =
     self\<lparr>status := (status self)\<lparr>messages := messages (status self) @ [m]\<rparr>\<rparr>"

definition set_attempts :: "str \<Rightarrow> int \<Rightarrow> cifscloak \<Rightarrow> cifscloak" where
  "set_attempts name a self =
     self\<lparr>status := (status self)\<lparr>attempts := (attempts (status self))(name \<mapsto> a)\<rparr>\<rparr>"

text \<open>\<^verbatim>\<open>self.status['attempts'][name] += 1\<close>\<close>

definition incr_attempts :: "str \<Rightarrow> cifscloak \<Rightarrow> (exn \<times> cifscloak) + cifscloak" where
  "incr_attempts name self =
     (case attempts (status self) name of
        None \<Rightarrow> Inl (KeyError, self)
      | Some a \<Rightarrow> Inr (set_attempts name (a + 1) self))"

text \<open>The commands spawned and the intervals slept, read off a trace.\<close>

fun spawned :: "event list \<Rightarrow> str list" where
  "spawned [] = []"
| "spawned (Spawn c # es) = c # spawned es"
| "spawned (e # es) = spawned es"

fun slept :: "event list \<Rightarrow> int list" where
  "slept [] = []"
| "slept (Sleep n # es) = n # slept es"
| "slept (e # es) = slept es"

section \<open>\<open>Cifscloak.execute\<close>\<close>

text \<open>
  \<open>time.sleep(secs)\<close> for an integer: the interval is converted to nanoseconds in a
  signed 64-bit number, which raises \<open>OverflowError\<close> when the number of seconds is
  beyond \<open>(2^63 - 1) div 10^9\<close> in either direction; a negative interval that fits
  raises \<open>ValueError\<close>. \<open>None\<close> is the sleep that returns.
\<close>

definition sleep_max :: int where
  "sleep_max = 9223372036"

definition sleep :: "int \<Rightarrow> exn option" where
  "sleep secs =
     (if secs < - sleep_max \<or> sleep_max < secs then Some OverflowError
      else if secs < 0 then Some ValueError
      else None)"

text \<open>
  One pass through the body of the \<open>while\<close> loop. \<open>Continue\<close> is the end of the body,
  \<open>Break\<close> the \<open>break\<close> statement; both carry the new \<open>returncode\<close>. An exception
  leaves the loop with the object as it was when raised.
\<close>

datatype 'a ctl = Continue 'a | Break 'a

definition execute_body ::
  "env \<Rightarrow> str \<Rightarrow> str \<Rightarrow> str list \<Rightarrow> int \<Rightarrow> cifscloak \<Rightarrow>
     (exn \<times> cifscloak) + (int \<times> cifscloak) ctl" where
  "execute_body E cmd name retryon expectedreturn self =
     (let (returncode, stderr) = proc E (trace self) cmd;
          self = emit (Spawn cmd) self
      in if returncode \<noteq> 0 \<and> returncode \<noteq> expectedreturn then
           (case search stderr of
              None \<Rightarrow> Inl (AttributeError, self)
            | Some mounterr \<Rightarrow>
               (let self = emit (Syslog (u ''Error: '' @ stderr)) self;
                    self = emit (Syslog (u ''Returned: '' @ str_int returncode)) self;
                    self = emit (Syslog (u ''MountErr: '' @ mounterr)) self;
                    self = set_error self;
                    self = add_message (name @ u '': '' @ stderr) self;
                    self = emit (StderrWrite stderr) self
                in if mounterr \<in> set retryon then
                     (case sleep (waitsecs self) of
                        Some e \<Rightarrow> Inl (e, self)
                      | None \<Rightarrow>
                        (case incr_attempts name (emit (Sleep (waitsecs self)) self) of
                           Inl e \<Rightarrow> Inl e
                         | Inr self \<Rightarrow> Inr (Continue (returncode, self))))
                   else
                     Inr (Break (returncode,
                       emit (Syslog (u ''mounterr '' @ mounterr @
                         u '' not in retryschema, no retry attempt will be made'')) self))))
         else
           (case incr_attempts name self of
              Inl e \<Rightarrow> Inl e
            | Inr self \<Rightarrow> Inr (Continue (returncode, self))))"

text \<open>
  The \<open>while\<close> loop: \<open>returncode\<close> is \<open>None\<close> before the first pass. The condition
  reads the counter only when the return code differs from the expected one.
\<close>

function execute_loop ::
  "env \<Rightarrow> str \<Rightarrow> str \<Rightarrow> str list \<Rightarrow> int \<Rightarrow> int option \<Rightarrow> cifscloak \<Rightarrow>
     (exn \<times> cifscloak) + (int option \<times> cifscloak)" where
  "execute_loop E cmd name retryon expectedreturn returncode self =
     (if returncode \<noteq> Some expectedreturn then
        (case attempts (status self) name of
           None \<Rightarrow> Inl (KeyError, self)
         | Some a \<Rightarrow>
            if a < retries self then
              (case execute_body E cmd name retryon expectedreturn self of
                 Inl e \<Rightarrow> Inl e
               | Inr (Break (rc, self')) \<Rightarrow> Inr (Some rc, self')
               | Inr (Continue (rc, self')) \<Rightarrow>
                   execute_loop E cmd name retryon expectedreturn (Some rc) self')
            else Inr (returncode, self))
      else Inr (returncode, self))"
  by pat_completeness auto
termination
proof (relation "measure (\<lambda>(E, cmd, name, retryon, expectedreturn, returncode, self).
          nat (retries self - (case attempts (status self) name of
                                 None \<Rightarrow> retries self | Some a \<Rightarrow> a)))", goal_cases)
  case 1
  show ?case by simp
next
  case (2 E cmd name retryon expectedreturn returncode self a body c rc self')
  then have "execute_body E cmd name retryon expectedreturn self = Inr (Continue (rc, self'))"
    by simp
  then have "attempts (status self') name = Some (a + 1) \<and> retries self' = retries self"
    using \<open>attempts (status self) name = Some a\<close>
    by (auto simp: execute_body_def Let_def emit_def set_error_def add_message_def
          set_attempts_def incr_attempts_def
        split: prod.splits option.splits if_splits)
  with 2 show ?case by simp
qed

declare execute_loop.simps [simp del]

text \<open>
  \<open>execute\<close>: the counter of the name is set to 0, the loop runs, and the name goes to
  \<open>failed\<close> or to \<open>success\<close> by the last return code. The default \<open>expectedreturn=0\<close> is
  what \<open>mount\<close> passes.
\<close>

definition record_failed :: "str \<Rightarrow> cifscloak \<Rightarrow> cifscloak" where
  "record_failed name self =
     self\<lparr>status := (status self)\<lparr>error := 1,
                                   failed := failed (status self) @ [name],
                                   failedcount := failedcount (status self) + 1\<rparr>\<rparr>"

definition record_success :: "str \<Rightarrow> cifscloak \<Rightarrow> cifscloak" where
  "record_success name self =
     self\<lparr>status := (status self)\<lparr>successcount := successcount (status self) + 1,
                                   success := success (status self) @ [name]\<rparr>\<rparr>"

definition execute ::
  "env \<Rightarrow> str \<Rightarrow> str \<Rightarrow> str list \<Rightarrow> int \<Rightarrow> cifscloak \<Rightarrow> (exn \<times> cifscloak) + cifscloak" where
  "execute E cmd name retryon expectedreturn self =
     (case execute_loop E cmd name retryon expectedreturn None (set_attempts name 0 self) of
        Inl e \<Rightarrow> Inl e
      | Inr (returncode, self) \<Rightarrow>
          if returncode \<noteq> Some expectedreturn then Inr (record_failed name self)
          else Inr (record_success name self))"

section \<open>\<open>encrypt\<close> and \<open>decrypt\<close>\<close>

text \<open>
  \<open>bytes(plain, encoding='utf-8')\<close> and \<open>.decode('utf-8')\<close>, both strict: a surrogate
  code point cannot be encoded, and only well-formed UTF-8 (shortest form, no surrogate,
  at most U+10FFFF) is decoded.
\<close>

definition surrogate :: "nat \<Rightarrow> bool" where
  "surrogate c = (0xD800 \<le> c \<and> c \<le> 0xDFFF)"

definition encode_cp :: "nat \<Rightarrow> bytes option" where
  "encode_cp c =
     (if c < 0x80 then Some [of_nat c]
      else if c < 0x800 then Some [of_nat (0xC0 + c div 64), of_nat (0x80 + c mod 64)]
      else if c < 0x10000 then
        (if surrogate c then None
         else Some [of_nat (0xE0 + c div 4096), of_nat (0x80 + c div 64 mod 64),
                    of_nat (0x80 + c mod 64)])
      else if c < 0x110000 then
        Some [of_nat (0xF0 + c div 262144), of_nat (0x80 + c div 4096 mod 64),
              of_nat (0x80 + c div 64 mod 64), of_nat (0x80 + c mod 64)]
      else None)"

fun utf8_encode :: "str \<Rightarrow> exn + bytes" where
  "utf8_encode [] = Inr []"
| "utf8_encode (c # cs) =
     (case encode_cp c of
        None \<Rightarrow> Inl UnicodeEncodeError
      | Some b \<Rightarrow> (case utf8_encode cs of Inl e \<Rightarrow> Inl e | Inr bs \<Rightarrow> Inr (b @ bs)))"

definition cont :: "8 word \<Rightarrow> bool" where
  "cont b = (0x80 \<le> unat b \<and> unat b < 0xC0)"

definition cbits :: "8 word \<Rightarrow> nat" where
  "cbits b = unat b - 0x80"

text \<open>The first code point of a byte sequence and the bytes after it.\<close>

definition decode_cp :: "bytes \<Rightarrow> (nat \<times> bytes) option" where
  "decode_cp bs =
     (case bs of
        [] \<Rightarrow> None
      | b0 # r0 \<Rightarrow>
         (let n0 = unat b0 in
          if n0 < 0x80 then Some (n0, r0)
          else if n0 < 0xC0 then None
          else if n0 < 0xE0 then
            (case r0 of
               b1 # r1 \<Rightarrow>
                 (let c = (n0 - 0xC0) * 64 + cbits b1
                  in if cont b1 \<and> 0x80 \<le> c then Some (c, r1) else None)
             | _ \<Rightarrow> None)
          else if n0 < 0xF0 then
            (case r0 of
               b1 # b2 # r2 \<Rightarrow>
                 (let c = (n0 - 0xE0) * 4096 + cbits b1 * 64 + cbits b2
                  in if cont b1 \<and> cont b2 \<and> 0x800 \<le> c \<and> \<not> surrogate c
                     then Some (c, r2) else None)
             | _ \<Rightarrow> None)
          else if n0 < 0xF8 then
            (case r0 of
               b1 # b2 # b3 # r3 \<Rightarrow>
                 (let c = (n0 - 0xF0) * 262144 + cbits b1 * 4096 + cbits b2 * 64 + cbits b3
                  in if cont b1 \<and> cont b2 \<and> cont b3 \<and> 0x10000 \<le> c \<and> c < 0x110000
                     then Some (c, r3) else None)
             | _ \<Rightarrow> None)
          else None))"

function utf8_decode :: "bytes \<Rightarrow> exn + str" where
  "utf8_decode bs =
     (if bs = [] then Inr []
      else
        (case decode_cp bs of
           None \<Rightarrow> Inl UnicodeDecodeError
         | Some (c, rest) \<Rightarrow>
             (case utf8_decode rest of Inl e \<Rightarrow> Inl e | Inr cs \<Rightarrow> Inr (c # cs))))"
  by pat_completeness auto
termination
proof (relation "measure length", goal_cases)
  case 1
  show ?case by simp
next
  case (2 bs x c rest)
  then have "length rest < length bs"
    by (auto simp: decode_cp_def Let_def split: list.splits if_splits)
  then show ?case by simp
qed

declare utf8_decode.simps [simp del]

text \<open>
  \<^verbatim>\<open>self.key.encrypt(bytes(plain,encoding='utf-8'))\<close> and
  \<^verbatim>\<open>self.key.decrypt(encrypted).decode('utf-8')\<close>. The number \<open>r\<close> is what the
  library draws for this call.
\<close>

definition encrypt :: "cifscloak \<Rightarrow> nat \<Rightarrow> str \<Rightarrow> exn + bytes" where
  "encrypt self r plain =
     (case utf8_encode plain of
        Inl e \<Rightarrow> Inl e
      | Inr b \<Rightarrow> Inr (fernet_encrypt (key self) r b))"

definition decrypt :: "cifscloak \<Rightarrow> bytes \<Rightarrow> exn + str" where
  "decrypt self encrypted =
     (case fernet_decrypt (key self) encrypted of
        None \<Rightarrow> Inl InvalidToken
      | Some b \<Rightarrow> utf8_decode b)"

section \<open>The store: \<open>addmount\<close>, \<open>listmounts\<close>, \<open>getcredentials\<close>\<close>

text \<open>
  A string is bound to a statement as its UTF-8 bytes: a name that cannot be encoded
  makes the call of \<open>cursor.execute\<close> raise \<open>UnicodeEncodeError\<close>.
\<close>

definition bind_text :: "str \<Rightarrow> exn option" where
  "bind_text s = (case utf8_encode s of Inl e \<Rightarrow> Some e | Inr b \<Rightarrow> None)"

text \<open>
  \<open>INSERT INTO cifstab\<close>: the primary key \<open>name\<close> makes the insertion of a second row
  with a stored name raise \<open>sqlite3.IntegrityError\<close>. The table is kept in the order
  of the index of the primary key, by which \<open>SELECT name FROM cifstab\<close> scans it:
  the order of the names as UTF-8 bytes, which is the lexicographic order of their code
  points. A stored name was bound when it was inserted, so a name that cannot be bound
  is never a stored one, and the test for a stored name is written first.
\<close>

definition sql_insert :: "row \<Rightarrow> row list \<Rightarrow> exn + row list" where
  "sql_insert r t =
     (if r_name r \<in> set (map r_name t) then Inl IntegrityError
      else
        (case bind_text (r_name r) of
           Some e \<Rightarrow> Inl e
         | None \<Rightarrow> Inr (insort_key r_name r t)))"

text \<open>\<open>listmounts\<close> prints every stored name and returns the names.\<close>

definition listmounts :: "cifscloak \<Rightarrow> str list \<times> cifscloak" where
  "listmounts self =
     (map r_name (cifstab self),
      foldl (\<lambda>s n. emit (Print n) s) self (map r_name (cifstab self)))"

record addargs =
  a_name :: str
  a_ipaddress :: str
  a_sharename :: str
  a_mountpoint :: str
  a_options :: str
  a_user :: str

text \<open>
  \<open>addmount\<close>: \<open>password\<close> is what \<open>getpass()\<close> read, \<open>rnd i\<close> what the library draws
  for the \<open>i\<close>-th field. The six fields are encrypted from left to right before the
  statement runs; \<open>IntegrityError\<close> is caught, any other exception is not.
\<close>

definition addmount ::
  "cifscloak \<Rightarrow> addargs \<Rightarrow> str \<Rightarrow> (nat \<Rightarrow> nat) \<Rightarrow> (exn \<times> cifscloak) + cifscloak" where
  "addmount self args password rnd =
     (case encrypt self (rnd 0) (a_ipaddress args) of Inl e \<Rightarrow> Inl (e, self) | Inr address \<Rightarrow>
     (case encrypt self (rnd 1) (a_sharename args) of Inl e \<Rightarrow> Inl (e, self) | Inr sharename \<Rightarrow>
     (case encrypt self (rnd 2) (a_mountpoint args) of Inl e \<Rightarrow> Inl (e, self) | Inr mountpoint \<Rightarrow>
     (case encrypt self (rnd 3) (a_options args) of Inl e \<Rightarrow> Inl (e, self) | Inr options \<Rightarrow>
     (case encrypt self (rnd 4) (a_user args) of Inl e \<Rightarrow> Inl (e, self) | Inr user \<Rightarrow>
     (case encrypt self (rnd 5) password of Inl e \<Rightarrow> Inl (e, self) | Inr pw \<Rightarrow>
     (case sql_insert
              \<lparr>r_name = a_name args, r_address = address, r_sharename = sharename,
               r_mountpoint = mountpoint, r_options = options, r_user = user,
               r_password = pw\<rparr> (cifstab self) of
         Inr t \<Rightarrow> Inr (self\<lparr>cifstab := t\<rparr>)
       | Inl e \<Rightarrow>
           if e = IntegrityError then
             Inr (snd (listmounts
               (emit (Print (u ''Cifs mount name must be unique'' @ [10] @
                             u ''Existing names:'')) self)))
           else Inl (e, self))))))))"

record credentials =
  c_name :: str
  c_address :: str
  c_sharename :: str
  c_mountpoint :: str
  c_options :: str
  c_user :: str
  c_password :: str

definition decrypt_row :: "cifscloak \<Rightarrow> row \<Rightarrow> exn + credentials" where
  "decrypt_row self r =
     (case decrypt self (r_address r) of Inl e \<Rightarrow> Inl e | Inr address \<Rightarrow>
     (case decrypt self (r_sharename r) of Inl e \<Rightarrow> Inl e | Inr sharename \<Rightarrow>
     (case decrypt self (r_mountpoint r) of Inl e \<Rightarrow> Inl e | Inr mountpoint \<Rightarrow>
     (case decrypt self (r_options r) of Inl e \<Rightarrow> Inl e | Inr options \<Rightarrow>
     (case decrypt self (r_user r) of Inl e \<Rightarrow> Inl e | Inr user \<Rightarrow>
     (case decrypt self (r_password r) of Inl e \<Rightarrow> Inl e | Inr password \<Rightarrow>
        Inr \<lparr>c_name = r_name r, c_address = address, c_sharename = sharename,
             c_mountpoint = mountpoint, c_options = options, c_user = user,
             c_password = password\<rparr>))))))"

text \<open>
  \<open>getcredentials\<close>: the name is bound to the \<open>SELECT\<close> statement, which raises when
  the name cannot be encoded; the loop over the selected rows keeps the last one;
  \<open>None\<close> is the empty dictionary the function returns when no row has the name.
\<close>

fun getcredentials_rows ::
  "cifscloak \<Rightarrow> row list \<Rightarrow> credentials option \<Rightarrow> exn + credentials option" where
  "getcredentials_rows self [] credentials = Inr credentials"
| "getcredentials_rows self (r # rs) credentials =
     (case decrypt_row self r of
        Inl e \<Rightarrow> Inl e
      | Inr c \<Rightarrow> getcredentials_rows self rs (Some c))"

definition getcredentials :: "cifscloak \<Rightarrow> str \<Rightarrow> exn + credentials option" where
  "getcredentials self name =
     (case bind_text name of
        Some e \<Rightarrow> Inl e
      | None \<Rightarrow>
          getcredentials_rows self (filter (\<lambda>r. r_name r = name) (cifstab self)) None)"

section \<open>\<open>Cifscloak.mount\<close>\<close>

record args =
  arg_all :: bool
  arg_names :: "str list"
  arg_u :: bool

text \<open>\<open>list(self.retryschema[...])\<close>: the keys of the dictionary, the items of the list.\<close>

definition retryschema_mount :: "(str \<times> str) list" where
  "retryschema_mount = [(u ''16'', u ''Device or resource busy'')]"

definition retryschema_umount :: "str list" where
  "retryschema_umount = [u ''target is busy.'']"

text \<open>
  \<open>list(dict.fromkeys(names))\<close>: a key is inserted at the end when it is not yet in the
  dictionary and keeps its place otherwise.
\<close>

fun fromkeys :: "'a list \<Rightarrow> 'a list \<Rightarrow> 'a list" where
  "fromkeys d [] = d"
| "fromkeys d (x # xs) = fromkeys (if x \<in> set d then d else d @ [x]) xs"

definition not_found_message :: "str \<Rightarrow> str" where
  "not_found_message name = u ''cifs name '' @ name @ u '' not found in cifstab''"

definition mount_cmd :: "credentials \<Rightarrow> str" where
  "mount_cmd c =
     u ''mount -t cifs -o username='' @ c_user c @ u '',password='' @ c_password c @
     u '','' @ c_options c @ u '' //'' @ c_address c @ u ''/'' @ c_sharename c @
     u '' '' @ c_mountpoint c"

definition umount_cmd :: "credentials \<Rightarrow> str" where
  "umount_cmd c = u ''umount '' @ c_mountpoint c"

text \<open>The \<open>for\<close> loop of \<open>mount\<close> over the resolved names.\<close>

fun mount_names ::
  "env \<Rightarrow> args \<Rightarrow> str list \<Rightarrow> cifscloak \<Rightarrow> (exn \<times> cifscloak) + cifscloak" where
  "mount_names E a [] self = Inr self"
| "mount_names E a (name # rest) self =
     (case getcredentials self name of
        Inl e \<Rightarrow> Inl (e, self)
      | Inr None \<Rightarrow>
          (let message = not_found_message name;
               self = emit (Syslog message) self;
               self = emit (Print message) self;
               self = add_message message self;
               self = set_error self
           in mount_names E a rest self)
      | Inr (Some cifsmount) \<Rightarrow>
          if arg_u a then
            (let self = emit (Syslog (u ''Attempting umount '' @ name)) self
             in (case execute E (umount_cmd cifsmount) name retryschema_umount 0 self of
                   Inl e \<Rightarrow> Inl e
                 | Inr self \<Rightarrow> mount_names E a rest self))
          else
            (let self = emit (Syslog (u ''Attempting mount '' @ name)) self
             in (case (if path_exists E (trace self) (c_mountpoint cifsmount) then None
                       else makedirs E (trace self) (c_mountpoint cifsmount)) of
                  Some e \<Rightarrow> Inl (e, self)
                | None \<Rightarrow>
                   (case execute E (mount_cmd cifsmount) name (map fst retryschema_mount) 0
                           (if path_exists E (trace self) (c_mountpoint cifsmount) then self
                            else emit (Makedirs (c_mountpoint cifsmount)) self) of
                      Inl e \<Rightarrow> Inl e
                    | Inr self \<Rightarrow> mount_names E a rest self))))"

definition mount :: "env \<Rightarrow> args \<Rightarrow> cifscloak \<Rightarrow> (exn \<times> cifscloak) + cifscloak" where
  "mount E a self =
     (if arg_all a then
        (case listmounts self of (mounts, self) \<Rightarrow> mount_names E a mounts self)
      else mount_names E a (fromkeys [] (arg_names a)) self)"

section \<open>The process: \<open>__init__\<close>, the subcommand, \<open>checkstatus\<close>\<close>

definition cifstabdir :: str where
  "cifstabdir = u ''/root/.cifstab''"

definition new_status :: status where
  "new_status =
     \<lparr>error = 0, successcount = 0, failedcount = 0, success = [], failed = [],
      attempts = Map.empty, messages = []\<rparr>"

text \<open>
  How the process ends, and the exit code the shell sees: \<open>sys.exit(n)\<close>, an exception
  that nothing catches (Python prints the traceback and exits with 1), or
  \<open>parser.exit(status=...)\<close> in \<open>checkstatus\<close>.
\<close>

datatype finish =
    SysExit int "event list"
  | Uncaught exn "event list"
  | ParserExit (exited: cifscloak)

fun exit_code :: "finish \<Rightarrow> int" where
  "exit_code (SysExit n tr) = n"
| "exit_code (Uncaught e tr) = 1"
| "exit_code (ParserExit self) = error (status self)"

text \<open>
  \<open>__init__\<close>: \<open>PermissionError\<close> from creating the directory prints a line and calls
  \<open>sys.exit(1)\<close>; any other exception is not caught. \<open>table\<close> and \<open>k\<close> are the table
  and the key that the database file and the key file hold once they are opened; the
  steps after the directory (permissions, opening the database, creating or reading
  the key file) are taken to succeed.
\<close>

definition init ::
  "env \<Rightarrow> row list \<Rightarrow> fernet \<Rightarrow> int \<Rightarrow> int \<Rightarrow> finish + cifscloak" where
  "init E table k r w =
     (case (if path_exists E [] cifstabdir then None else makedirs E [] cifstabdir) of
        Some e \<Rightarrow>
          if e = PermissionError then
            Inl (SysExit 1 [Print (u ''PermissionError - must be root user to read cifstab'')])
          else Inl (Uncaught e [])
      | None \<Rightarrow>
          Inr \<lparr>status = new_status, retries = r, waitsecs = w, cifstab = table, key = k,
               trace = (if path_exists E [] cifstabdir then [] else [Makedirs cifstabdir])\<rparr>)"

definition checkstatus :: "cifscloak \<Rightarrow> finish" where
  "checkstatus self =
     ParserExit (if error (status self) \<noteq> 0 then emit PrintStatus self else self)"

text \<open>The subcommand \<open>mount\<close> from the start of the process to its exit.\<close>

definition main_mount ::
  "env \<Rightarrow> row list \<Rightarrow> fernet \<Rightarrow> int \<Rightarrow> int \<Rightarrow> args \<Rightarrow> finish" where
  "main_mount E table k r w a =
     (case init E table k r w of
        Inl fin \<Rightarrow> fin
      | Inr self \<Rightarrow>
          (case mount E a self of
             Inl (e, self) \<Rightarrow> Uncaught e (trace self)
           | Inr self \<Rightarrow> checkstatus self))"

text \<open>
  Read off a trace: every command that was run returned 0. \<open>pre\<close> is the trace before
  the events examined, which is what the process had done when the command was run.
\<close>

fun runs_ok :: "env \<Rightarrow> event list \<Rightarrow> event list \<Rightarrow> bool" where
  "runs_ok E pre [] = True"
| "runs_ok E pre (Spawn c # es) = (fst (proc E pre c) = 0 \<and> runs_ok E (pre @ [Spawn c]) es)"
| "runs_ok E pre (e # es) = runs_ok E (pre @ [e]) es"

section \<open>Test fixtures and auxiliary predicates\<close>

text \<open>
  Standard error texts, an operating system whose commands always end the same way, a
  stand-in for the key (it prepends one byte and removes it again), and a new object with
  a given configuration and table.
\<close>

definition busy_stderr :: str where
  "busy_stderr = u ''mount error(16): Device or resource busy''"
definition denied_stderr :: str where
  "denied_stderr = u ''mount error(13): Permission denied''"
definition unmatched_stderr :: str where
  "unmatched_stderr = u ''Unable to find suitable address.''"

definition env_const :: "int \<Rightarrow> str \<Rightarrow> env" where
  "env_const rc err =
     \<lparr>proc = (\<lambda>tr cmd. (rc, err)), path_exists = (\<lambda>tr p. True), makedirs = (\<lambda>tr p. None)\<rparr>"

definition toy_key :: fernet where
  "toy_key =
     \<lparr>fernet_encrypt = (\<lambda>r b. of_nat r # b),
      fernet_decrypt = (\<lambda>t. case t of [] \<Rightarrow> None | x # b \<Rightarrow> Some b)\<rparr>"

definition fresh :: "int \<Rightarrow> int \<Rightarrow> row list \<Rightarrow> cifscloak" where
  "fresh r w table =
     \<lparr>status = new_status, retries = r, waitsecs = w, cifstab = table, key = toy_key,
      trace = []\<rparr>"

text \<open>What the retry loop leaves alone.\<close>

definition same_lists :: "cifscloak \<Rightarrow> cifscloak \<Rightarrow> bool" where
  "same_lists s s' =
     (success (status s') = success (status s) \<and> failed (status s') = failed (status s) \<and>
      successcount (status s') = successcount (status s) \<and>
      failedcount (status s') = failedcount (status s) \<and>
      retries s' = retries s \<and> waitsecs s' = waitsecs s \<and>
      cifstab s' = cifstab s \<and> key s' = key s)"




text \<open>A run of \<open>execute\<close> under the option \<open>-r -1\<close>.\<close>

definition run_negative_limit :: "(exn \<times> cifscloak) + cifscloak" where
  "run_negative_limit =
     execute (env_const 0 []) (u ''mount'') (u ''fileserver'') (map fst retryschema_mount) 0
       (fresh (- 1) 5 [])"

text \<open>
  The error flag is 0 or 1, and it is 0 exactly when no name is in \<open>failed\<close> and no
  message has been recorded.
\<close>

definition flag_ok :: "status \<Rightarrow> bool" where
  "flag_ok st =
     ((error st = 0 \<or> error st = 1) \<and>
      (error st = 0) = (failed st = [] \<and> messages st = []))"

text \<open>
  Following the words of the specification (de-duplication that preserves the order of
  first occurrences): every element stays at the place of its first occurrence and its
  later occurrences are dropped. To be compared with \<open>fromkeys\<close>.
\<close>

primrec first_occurrences :: "'a list \<Rightarrow> 'a list" where
  "first_occurrences [] = []"
| "first_occurrences (x # xs) = x # filter (\<lambda>y. y \<noteq> x) (first_occurrences xs)"

text \<open>The object after the branch of \<open>mount\<close> for a name that is not in the table.\<close>

definition not_found :: "str \<Rightarrow> cifscloak \<Rightarrow> cifscloak" where
  "not_found name self =
     set_error (add_message (not_found_message name)
       (emit (Print (not_found_message name)) (emit (Syslog (not_found_message name)) self)))"

text \<open>
  The code points that can be encoded as UTF-8: the Unicode scalar values (see
  \<open>utf8_encode_scalar\<close> and \<open>utf8_encode_Inr_scalar\<close> below).
\<close>

definition scalar :: "nat \<Rightarrow> bool" where
  "scalar c = (c < 0x110000 \<and> \<not> surrogate c)"

text \<open>
  A table for the stand-in key: every row holds the same share under its own name, each
  field as the stand-in key encrypts its UTF-8 bytes; \<open>toy_credentials\<close> is what
  \<open>getcredentials\<close> reads back. \<open>fileserver_args\<close> are the arguments of \<open>addmount\<close> for
  the entry \<open>fileserver\<close>.
\<close>

definition toy_enc :: "str \<Rightarrow> bytes" where
  "toy_enc v = 0 # projr (utf8_encode v)"

definition toy_row :: "str \<Rightarrow> row" where
  "toy_row nm =
     \<lparr>r_name = nm, r_address = toy_enc (u ''10.0.0.5''), r_sharename = toy_enc (u ''docs''),
      r_mountpoint = toy_enc (u ''/mnt/'' @ nm), r_options = toy_enc (u '' ''),
      r_user = toy_enc (u ''alice''), r_password = toy_enc (u ''secret'')\<rparr>"

definition toy_credentials :: "str \<Rightarrow> credentials" where
  "toy_credentials nm =
     \<lparr>c_name = nm, c_address = u ''10.0.0.5'', c_sharename = u ''docs'',
      c_mountpoint = u ''/mnt/'' @ nm, c_options = u '' '', c_user = u ''alice'',
      c_password = u ''secret''\<rparr>"

definition fileserver_args :: addargs where
  "fileserver_args =
     \<lparr>a_name = u ''fileserver'', a_ipaddress = u ''10.0.0.5'', a_sharename = u ''docs'',
      a_mountpoint = u ''/mnt/docs'', a_options = u '' '', a_user = u ''alice''\<rparr>"

text \<open>
  An operating system whose first command fails with the busy error and whose later
  commands succeed; one on which the directory of the table cannot be created; the
  arguments of \<open>mount --names\<close>; a run of \<open>mount -n ghost a\<close> on a table that holds
  \<open>a\<close> only, every command succeeding; and a whole run of \<open>mount -n a\<close> on the first
  operating system.
\<close>

definition env_flaky :: env where
  "env_flaky =
     \<lparr>proc = (\<lambda>tr cmd. if spawned tr = [] then (16, busy_stderr) else (0, [])),
      path_exists = (\<lambda>tr p. True), makedirs = (\<lambda>tr p. None)\<rparr>"

definition env_not_root :: env where
  "env_not_root =
     \<lparr>proc = (\<lambda>tr cmd. (0, [])), path_exists = (\<lambda>tr p. False),
      makedirs = (\<lambda>tr p. Some PermissionError)\<rparr>"

definition mount_args :: "str list \<Rightarrow> args" where
  "mount_args ns = \<lparr>arg_all = False, arg_names = ns, arg_u = False\<rparr>"

definition run_ghost :: "(exn \<times> cifscloak) + cifscloak" where
  "run_ghost =
     mount (env_const 0 []) (mount_args [u ''ghost'', u ''a'']) (fresh 3 5 [toy_row (u ''a'')])"

text \<open>
  \<open>mount -n <0xFF> a\<close>: the byte \<open>0xFF\<close> of the command line is the lone surrogate
  \<open>U+DCFF\<close> in \<open>sys.argv\<close>.
\<close>

definition run_surrogate :: "(exn \<times> cifscloak) + cifscloak" where
  "run_surrogate =
     mount (env_const 0 []) (mount_args [[0xDCFF], u ''a'']) (fresh 3 5 [toy_row (u ''a'')])"

definition run_flaky :: finish where
  "run_flaky = main_mount env_flaky [toy_row (u ''a'')] toy_key 3 5 (mount_args [u ''a''])"

text \<open>Each count is the length of its list.\<close>

definition counts_ok :: "status \<Rightarrow> bool" where
  "counts_ok st =
     (successcount st = int (length (success st)) \<and>
      failedcount st = int (length (failed st)))"

section \<open>Properties of \<open>execute\<close>\<close>

lemma spawned_append: "spawned (xs @ ys) = spawned xs @ spawned ys"
  by (induction xs rule: spawned.induct) auto

lemma slept_append: "slept (xs @ ys) = slept xs @ slept ys"
  by (induction xs rule: slept.induct) auto

lemmas body_defs = execute_body_def Let_def emit_def set_error_def add_message_def
  set_attempts_def incr_attempts_def

lemma execute_body_retry:
  assumes "proc E (trace self) cmd = (rc, err)" and "rc \<noteq> 0" and "rc \<noteq> er"
    and "search err = Some t" and "t \<in> set retryon" and "sleep (waitsecs self) = None"
    and "attempts (status self) name = Some a"
  shows "\<exists>s. execute_body E cmd name retryon er self = Inr (Continue (rc, s)) \<and>
           spawned (trace s) = spawned (trace self) @ [cmd] \<and>
           slept (trace s) = slept (trace self) @ [waitsecs self] \<and>
           attempts (status s) name = Some (a + 1) \<and>
           retries s = retries self \<and> waitsecs s = waitsecs self \<and>
           success (status s) = success (status self) \<and>
           failed (status s) = failed (status self) \<and>
           successcount (status s) = successcount (status self) \<and>
           failedcount (status s) = failedcount (status self) \<and>
           error (status s) = 1"
  using assms by (simp add: body_defs spawned_append slept_append)

lemma execute_loop_retry:
  assumes "\<forall>tr. fst (proc E tr cmd) \<noteq> 0 \<and> search (snd (proc E tr cmd)) = Some t"
    and "t \<in> set retryon" and "sleep (waitsecs self) = None"
    and "attempts (status self) name = Some a" and "retries self = a + int k"
    and "rc \<noteq> Some 0"
  shows "\<exists>rc' s. execute_loop E cmd name retryon 0 rc self = Inr (rc', s) \<and>
           rc' \<noteq> Some 0 \<and>
           spawned (trace s) = spawned (trace self) @ replicate k cmd \<and>
           slept (trace s) = slept (trace self) @ replicate k (waitsecs self) \<and>
           attempts (status s) name = Some (retries self) \<and>
           success (status s) = success (status self) \<and>
           failed (status s) = failed (status self) \<and>
           successcount (status s) = successcount (status self) \<and>
           failedcount (status s) = failedcount (status self)"
  using assms(3-)
proof (induction k arbitrary: self a rc)
  case 0
  then show ?case by (subst execute_loop.simps) simp
next
  case (Suc k)
  obtain rc1 err where p: "proc E (trace self) cmd = (rc1, err)"
    by (cases "proc E (trace self) cmd")
  with assms(1) have f: "rc1 \<noteq> 0" and m: "search err = Some t"
    by (metis fst_conv, metis snd_conv)
  from execute_body_retry [OF p f f m assms(2) Suc.prems(1) Suc.prems(2)]
  obtain s1 where b: "execute_body E cmd name retryon 0 self = Inr (Continue (rc1, s1))"
    and s1: "spawned (trace s1) = spawned (trace self) @ [cmd]"
      "slept (trace s1) = slept (trace self) @ [waitsecs self]"
      "attempts (status s1) name = Some (a + 1)"
      "retries s1 = retries self" "waitsecs s1 = waitsecs self"
      "success (status s1) = success (status self)"
      "failed (status s1) = failed (status self)"
      "successcount (status s1) = successcount (status self)"
      "failedcount (status s1) = failedcount (status self)"
    by blast
  have "sleep (waitsecs s1) = None" "retries s1 = (a + 1) + int k" "Some rc1 \<noteq> Some 0"
    using Suc.prems s1 f by simp_all
  from Suc.IH [OF this(1) s1(3) this(2) this(3)]
  obtain rc' s where l: "execute_loop E cmd name retryon 0 (Some rc1) s1 = Inr (rc', s)"
    and s: "rc' \<noteq> Some 0"
      "spawned (trace s) = spawned (trace s1) @ replicate k cmd"
      "slept (trace s) = slept (trace s1) @ replicate k (waitsecs s1)"
      "attempts (status s) name = Some (retries s1)"
      "success (status s) = success (status s1)"
      "failed (status s) = failed (status s1)"
      "successcount (status s) = successcount (status s1)"
      "failedcount (status s) = failedcount (status s1)"
    by blast
  have "execute_loop E cmd name retryon 0 rc self = Inr (rc', s)"
    using Suc.prems b l by (subst execute_loop.simps) simp
  with s s1 show ?case by simp
qed

lemma execute_body_same_lists:
  assumes "execute_body E cmd name retryon er self = Inr c"
    and "c = Continue (rc, s) \<or> c = Break (rc, s)"
  shows "same_lists self s"
  using assms
  by (auto simp: body_defs same_lists_def split: prod.splits option.splits if_splits)

lemma execute_body_spawned:
  assumes "execute_body E cmd name retryon er self = Inr c"
    and "c = Continue (rc, s) \<or> c = Break (rc, s)"
  shows "spawned (trace s) = spawned (trace self) @ [cmd]"
  using assms
  by (auto simp: body_defs spawned_append split: prod.splits option.splits if_splits)

lemma execute_body_attempts_other:
  assumes "execute_body E cmd name retryon er self = Inr c"
    and "c = Continue (rc, s) \<or> c = Break (rc, s)" and "n \<noteq> name"
  shows "attempts (status s) n = attempts (status self) n"
  using assms
  by (auto simp: body_defs split: prod.splits option.splits if_splits)

lemma execute_body_counter:
  assumes "execute_body E cmd name retryon er self = Inr c"
    and "attempts (status self) name = Some a"
  shows "(\<exists>rc s. c = Continue (rc, s) \<and> attempts (status s) name = Some (a + 1)) \<or>
         (\<exists>rc s. c = Break (rc, s) \<and> attempts (status s) name = Some a)"
  using assms
  by (auto simp: body_defs split: prod.splits option.splits if_splits)

lemma execute_body_raise:
  assumes "execute_body E cmd name retryon er self = Inl (e, s)"
  shows "attempts (status s) = attempts (status self)"
  using assms
  by (auto simp: body_defs split: prod.splits option.splits if_splits)

lemma execute_loop_invariant:
  assumes "execute_loop E cmd name retryon er rc self = Inr (rc', s)"
    and "P self"
    and step: "\<And>s0 a c rc1 s1. P s0 \<Longrightarrow> attempts (status s0) name = Some a \<Longrightarrow>
        a < retries s0 \<Longrightarrow> execute_body E cmd name retryon er s0 = Inr c \<Longrightarrow>
        c = Continue (rc1, s1) \<or> c = Break (rc1, s1) \<Longrightarrow> P s1"
  shows "P s"
  using assms
proof (induction E cmd name retryon er rc self rule: execute_loop.induct)
  case (1 E cmd name retryon er rc self)
  note step1 = "1.prems"(3)
  show ?case
  proof (cases "rc \<noteq> Some er \<and> (\<exists>a. attempts (status self) name = Some a \<and> a < retries self)")
    case False
    with "1.prems"(1) have "s = self"
      by (subst (asm) execute_loop.simps) (auto split: option.splits if_splits)
    with "1.prems"(2) show ?thesis by simp
  next
    case True
    then obtain a where a: "rc \<noteq> Some er" "attempts (status self) name = Some a" "a < retries self"
      by blast
    show ?thesis
    proof (cases "execute_body E cmd name retryon er self")
      case (Inl e)
      with a "1.prems"(1) show ?thesis by (subst (asm) execute_loop.simps) simp
    next
      case (Inr c)
      show ?thesis
      proof (cases c)
        case (Continue p)
        obtain rc1 s1 where p: "p = (rc1, s1)" by (cases p)
        from a Inr Continue p "1.prems"(1)
        have l: "execute_loop E cmd name retryon er (Some rc1) s1 = Inr (rc', s)"
          by (subst (asm) execute_loop.simps) simp
        have "P s1"
          using step1 [OF "1.prems"(2) a(2) a(3) Inr] Continue p by simp
        from "1.IH" [OF a(1) a(2) a(3) Inr Continue p [symmetric] l this step1]
        show ?thesis by simp
      next
        case (Break p)
        obtain rc1 s1 where p: "p = (rc1, s1)" by (cases p)
        from a Inr Break p "1.prems"(1) have "s = s1"
          by (subst (asm) execute_loop.simps) simp
        moreover have "P s1"
          using step1 [OF "1.prems"(2) a(2) a(3) Inr] Break p by simp
        ultimately show ?thesis by simp
      qed
    qed
  qed
qed

lemma same_lists_trans: "same_lists a b \<Longrightarrow> same_lists b c \<Longrightarrow> same_lists a c"
  by (simp add: same_lists_def)

lemma execute_loop_same_lists:
  assumes "execute_loop E cmd name retryon er rc self = Inr (rc', s)"
  shows "same_lists self s"
proof (rule execute_loop_invariant [OF assms, where P = "same_lists self"])
  show "same_lists self self" by (simp add: same_lists_def)
next
  fix s0 a c rc1 s1
  assume "same_lists self s0" and "execute_body E cmd name retryon er s0 = Inr c"
    and "c = Continue (rc1, s1) \<or> c = Break (rc1, s1)"
  then show "same_lists self s1"
    using execute_body_same_lists same_lists_trans by blast
qed

lemma execute_loop_attempts_other:
  assumes "execute_loop E cmd name retryon er rc self = Inr (rc', s)" and "n \<noteq> name"
  shows "attempts (status s) n = attempts (status self) n"
proof (rule execute_loop_invariant [OF assms(1),
         where P = "\<lambda>x. attempts (status x) n = attempts (status self) n"])
  show "attempts (status self) n = attempts (status self) n" by simp
next
  fix s0 a c rc1 s1
  assume "attempts (status s0) n = attempts (status self) n"
    and "execute_body E cmd name retryon er s0 = Inr c"
    and "c = Continue (rc1, s1) \<or> c = Break (rc1, s1)"
  then show "attempts (status s1) n = attempts (status self) n"
    using execute_body_attempts_other [OF _ _ assms(2)] by metis
qed

lemma execute_loop_counter:
  assumes "execute_loop E cmd name retryon er rc self = Inr (rc', s)"
    and "attempts (status self) name = Some a0"
  shows "\<exists>a. attempts (status s) name = Some a \<and> a0 \<le> a \<and> a \<le> max a0 (retries self)"
proof -
  let ?P = "\<lambda>x. retries x = retries self \<and>
              (\<exists>a. attempts (status x) name = Some a \<and> a0 \<le> a \<and> a \<le> max a0 (retries self))"
  have "?P s"
  proof (rule execute_loop_invariant [OF assms(1), where P = ?P])
    show "?P self" using assms(2) by simp
  next
    fix s0 a c rc1 s1
    assume P: "?P s0" and a: "attempts (status s0) name = Some a" "a < retries s0"
      and b: "execute_body E cmd name retryon er s0 = Inr c"
      and c: "c = Continue (rc1, s1) \<or> c = Break (rc1, s1)"
    have "same_lists s0 s1" using execute_body_same_lists [OF b c] .
    then have r: "retries s1 = retries self" using P by (simp add: same_lists_def)
    from execute_body_counter [OF b a(1)] c
    have "attempts (status s1) name = Some (a + 1) \<or> attempts (status s1) name = Some a"
      by auto
    with P a r show "?P s1" by auto
  qed
  then show ?thesis by simp
qed

lemmas regex_defs = u_def match_here_def alt1_def alt2_def is_digit_def is_any_def
  is_space_def nd_ranges_def

lemma search_busy: "search busy_stderr = Some (u ''16'')"
  by (simp add: busy_stderr_def regex_defs)

lemma search_denied: "search denied_stderr = Some (u ''13'')"
  by (simp add: denied_stderr_def regex_defs)

lemma search_unmatched: "search unmatched_stderr = None"
  by (simp add: unmatched_stderr_def regex_defs)

lemma execute_Inr:
  assumes "execute E cmd name retryon er self = Inr s"
  shows "\<exists>rc' s1. execute_loop E cmd name retryon er None (set_attempts name 0 self) = Inr (rc', s1) \<and>
           (rc' \<noteq> Some er \<and> s = record_failed name s1 \<or>
            rc' = Some er \<and> s = record_success name s1)"
  using assms by (auto simp: execute_def split: sum.splits prod.splits if_splits)

lemma runs_ok_append:
  "runs_ok E pre (xs @ ys) = (runs_ok E pre xs \<and> runs_ok E (pre @ xs) ys)"
proof (induction xs arbitrary: pre)
  case Nil
  then show ?case by simp
next
  case (Cons x xs)
  then show ?case by (cases x) auto
qed

lemma runs_ok_no_spawn: "spawned es = [] \<Longrightarrow> runs_ok E pre es"
proof (induction es arbitrary: pre)
  case Nil
  then show ?case by simp
next
  case (Cons x xs)
  then show ?case by (cases x) auto
qed

section \<open>Claims about the retry loop\<close>




text \<open>
  Claim C2. When the first run of the command fails with a token that is not in the
  retry list, \<open>execute\<close> runs the command once, sleeps no wait interval and appends the
  name to \<open>failed\<close>. The claim also says that the recorded number of attempts is one:
  the code leaves the loop by \<open>break\<close> before the counter is incremented, so the
  recorded number is 0. The theorem states what the code does.
\<close>

theorem C2_attempt_not_counted:
  assumes "proc E (trace self) cmd = (rc, err)" and "rc \<noteq> 0"
    and "search err = Some t" and "t \<notin> set retryon" and "0 < retries self"
  shows "\<exists>s. execute E cmd name retryon 0 self = Inr s \<and>
           spawned (trace s) = spawned (trace self) @ [cmd] \<and>
           slept (trace s) = slept (trace self) \<and>
           failed (status s) = failed (status self) @ [name] \<and>
           attempts (status s) name = Some 0"
  using assms
  by (subst execute_def, subst execute_loop.simps)
     (simp add: body_defs record_failed_def spawned_append slept_append)

theorem C2_attempt_not_counted_witness:
  "proc (env_const 32 denied_stderr) (trace (fresh 3 5 [])) (u ''mount'') = (32, denied_stderr) \<and>
   (32::int) \<noteq> 0 \<and> search denied_stderr = Some (u ''13'') \<and>
   u ''13'' \<notin> set (map fst retryschema_mount) \<and> 0 < retries (fresh 3 5 []) \<and>
   (\<exists>s. execute (env_const 32 denied_stderr) (u ''mount'') (u ''fileserver'')
           (map fst retryschema_mount) 0 (fresh 3 5 []) = Inr s \<and>
        spawned (trace s) = [u ''mount''] \<and>
        slept (trace s) = [] \<and>
        failed (status s) = [u ''fileserver''] \<and>
        attempts (status s) (u ''fileserver'') = Some 0)"
proof -
  have p: "proc (env_const 32 denied_stderr) (trace (fresh 3 5 [])) (u ''mount'') = (32, denied_stderr)"
    by (simp add: env_const_def)
  have n: "(32::int) \<noteq> 0" by simp
  have t: "u ''13'' \<notin> set (map fst retryschema_mount)"
    by (simp add: retryschema_mount_def u_def)
  have r: "0 < retries (fresh 3 5 [])" by (simp add: fresh_def)
  from C2_attempt_not_counted [OF p n search_denied t r, of "u ''fileserver''"] p t r search_denied
  show ?thesis
    by (simp add: fresh_def new_status_def)
qed

text \<open>
  Claim C4. When the standard error text of a failed command matches neither form of
  the pattern, \<open>regex.search\<close> returns \<open>None\<close> and \<open>.group(1)\<close> raises
  \<open>AttributeError\<close>: \<open>execute\<close> does not end in a recorded failure, as the claim says it
  should, but with an exception that nothing catches. The theorem states what the code
  does: the command has run once and the name is in neither list.
\<close>

theorem C4_unmatched_stderr_raises:
  assumes "proc E (trace self) cmd = (rc, err)" and "rc \<noteq> 0"
    and "search err = None" and "0 < retries self"
  shows "\<exists>s. execute E cmd name retryon 0 self = Inl (AttributeError, s) \<and>
           spawned (trace s) = spawned (trace self) @ [cmd] \<and>
           failed (status s) = failed (status self) \<and>
           success (status s) = success (status self)"
  using assms
  by (subst execute_def, subst execute_loop.simps)
     (simp add: body_defs spawned_append)

theorem C4_unmatched_stderr_raises_witness:
  "proc (env_const 32 unmatched_stderr) (trace (fresh 3 5 [])) (u ''mount'') = (32, unmatched_stderr) \<and>
   (32::int) \<noteq> 0 \<and> search unmatched_stderr = None \<and> 0 < retries (fresh 3 5 []) \<and>
   (\<exists>s. execute (env_const 32 unmatched_stderr) (u ''mount'') (u ''fileserver'')
           (map fst retryschema_mount) 0 (fresh 3 5 []) = Inl (AttributeError, s) \<and>
        spawned (trace s) = [u ''mount''] \<and>
        failed (status s) = [] \<and> success (status s) = [])"
proof -
  have p: "proc (env_const 32 unmatched_stderr) (trace (fresh 3 5 [])) (u ''mount'') = (32, unmatched_stderr)"
    by (simp add: env_const_def)
  have n: "(32::int) \<noteq> 0" by simp
  have r: "0 < retries (fresh 3 5 [])" by (simp add: fresh_def)
  from C4_unmatched_stderr_raises [OF p n search_unmatched r, of "u ''fileserver''" "map fst retryschema_mount"]
    p r search_unmatched
  show ?thesis
    by (simp add: fresh_def new_status_def)
qed

text \<open>
  Claim C9, as stated: during a run of \<open>execute\<close> the counter of the name never exceeds
  the configured retry limit. The option \<open>--retries\<close> accepts any integer; with the
  limit \<open>-1\<close> the counter is set to 0 and stays there, above the limit.
\<close>

theorem C9_counterexample:
  "\<not> isl run_negative_limit \<and>
   attempts (status (projr run_negative_limit)) (u ''fileserver'') = Some 0 \<and>
   retries (projr run_negative_limit) = - 1 \<and>
   \<not> (0 \<le> retries (projr run_negative_limit))"
  by (simp add: run_negative_limit_def execute_def execute_loop.simps set_attempts_def
        fresh_def new_status_def record_failed_def)

text \<open>
  Claim C9, amended. Every pass through the body of the loop (entered only while the
  counter is below the limit) leaves the counter as it is or adds one to it, and leaves
  it at most the limit; when \<open>execute\<close> returns, the counter is between 0 and the larger
  of 0 and the limit. So the counter never decreases, and it never exceeds the limit
  unless the limit is negative.
\<close>

theorem C9_counter_monotone_bounded:
  "(attempts (status self) name = Some a \<longrightarrow> a < retries self \<longrightarrow>
      execute_body E cmd name retryon er self = Inr c \<longrightarrow>
      (\<exists>rc s a'. (c = Continue (rc, s) \<or> c = Break (rc, s)) \<and>
         attempts (status s) name = Some a' \<and> a \<le> a' \<and> a' \<le> retries self \<and>
         retries s = retries self)) \<and>
   (execute E cmd name retryon er self = Inr s' \<longrightarrow>
      (\<exists>a. attempts (status s') name = Some a \<and> 0 \<le> a \<and> a \<le> max 0 (retries self)))"
proof (intro conjI impI)
  assume a: "attempts (status self) name = Some a" and lt: "a < retries self"
    and b: "execute_body E cmd name retryon er self = Inr c"
  from execute_body_counter [OF b a]
  obtain rc s where c: "c = Continue (rc, s) \<or> c = Break (rc, s)"
    and s: "attempts (status s) name = Some (a + 1) \<or> attempts (status s) name = Some a"
    by auto
  have "retries s = retries self"
    using execute_body_same_lists [OF b c] by (simp add: same_lists_def)
  with c s lt
  show "\<exists>rc s a'. (c = Continue (rc, s) \<or> c = Break (rc, s)) \<and>
         attempts (status s) name = Some a' \<and> a \<le> a' \<and> a' \<le> retries self \<and>
         retries s = retries self"
    by auto
next
  assume e: "execute E cmd name retryon er self = Inr s'"
  from execute_Inr [OF e]
  obtain rc' s1 where l: "execute_loop E cmd name retryon er None (set_attempts name 0 self) = Inr (rc', s1)"
    and s': "s' = record_failed name s1 \<or> s' = record_success name s1"
    by auto
  have "attempts (status (set_attempts name 0 self)) name = Some 0"
    by (simp add: set_attempts_def)
  from execute_loop_counter [OF l this]
  obtain a where "attempts (status s1) name = Some a" "0 \<le> a"
    "a \<le> max 0 (retries (set_attempts name 0 self))"
    by auto
  with s' show "\<exists>a. attempts (status s') name = Some a \<and> 0 \<le> a \<and> a \<le> max 0 (retries self)"
    by (auto simp: record_failed_def record_success_def set_attempts_def)
qed

theorem C9_counter_monotone_bounded_witness:
  "attempts (status (set_attempts (u ''fileserver'') 0 (fresh 3 5 []))) (u ''fileserver'') = Some 0 \<and>
   0 < retries (set_attempts (u ''fileserver'') 0 (fresh 3 5 [])) \<and>
   (\<exists>c rc s a'.
      execute_body (env_const 16 busy_stderr) (u ''mount'') (u ''fileserver'')
        (map fst retryschema_mount) 0 (set_attempts (u ''fileserver'') 0 (fresh 3 5 [])) = Inr c \<and>
      (c = Continue (rc, s) \<or> c = Break (rc, s)) \<and>
      attempts (status s) (u ''fileserver'') = Some a' \<and> 0 \<le> a' \<and> a' \<le> 3) \<and>
   (\<exists>s' a.
      execute (env_const 16 busy_stderr) (u ''mount'') (u ''fileserver'')
        (map fst retryschema_mount) 0 (set_attempts (u ''fileserver'') 0 (fresh 3 5 [])) = Inr s' \<and>
      attempts (status s') (u ''fileserver'') = Some a \<and> 0 \<le> a \<and> a \<le> 3)"
proof -
  let ?S = "set_attempts (u ''fileserver'') 0 (fresh 3 5 [])"
  let ?E = "env_const 16 busy_stderr"
  let ?ro = "map fst retryschema_mount"
  have a: "attempts (status ?S) (u ''fileserver'') = Some 0"
    by (simp add: set_attempts_def)
  have lt: "0 < retries ?S" and r: "retries ?S = 3"
    by (simp_all add: set_attempts_def fresh_def)
  have t: "u ''16'' \<in> set ?ro"
    by (simp add: retryschema_mount_def)
  have p: "proc ?E (trace ?S) (u ''mount'') = (16, busy_stderr)"
    by (simp add: env_const_def)
  have w: "sleep (waitsecs ?S) = None"
    by (simp add: set_attempts_def fresh_def sleep_def sleep_max_def)
  from execute_body_retry [OF p _ _ search_busy t w a, of 0]
  obtain s where b: "execute_body ?E (u ''mount'') (u ''fileserver'') ?ro 0 ?S = Inr (Continue (16, s))"
    by auto
  have "\<forall>tr. fst (proc ?E tr (u ''mount'')) \<noteq> 0 \<and>
          search (snd (proc ?E tr (u ''mount''))) = Some (u ''16'')"
    by (simp add: env_const_def search_busy)
  from execute_loop_retry [OF this t, of "set_attempts (u ''fileserver'') 0 ?S" "u ''fileserver''" 0 3 None]
  obtain rc' s1 where
    "execute_loop ?E (u ''mount'') (u ''fileserver'') ?ro 0 None
       (set_attempts (u ''fileserver'') 0 ?S) = Inr (rc', s1)"
    by (auto simp: set_attempts_def fresh_def sleep_def sleep_max_def)
  then have "\<exists>s'. execute ?E (u ''mount'') (u ''fileserver'') ?ro 0 ?S = Inr s'"
    by (cases "rc' = Some 0") (simp_all add: execute_def)
  then obtain s' where e: "execute ?E (u ''mount'') (u ''fileserver'') ?ro 0 ?S = Inr s'"
    by blast
  from C9_counter_monotone_bounded [THEN conjunct1, rule_format, OF a lt b]
    C9_counter_monotone_bounded [THEN conjunct2, rule_format, OF e] a lt b e r
  show ?thesis
    by (simp only: max_def) fastforce
qed

section \<open>Properties of \<open>mount\<close>\<close>

lemma decrypt_cong:
  assumes "key s = key self"
  shows "decrypt s = decrypt self"
  using assms by (intro ext) (simp add: decrypt_def)

lemma decrypt_row_cong:
  assumes "key s = key self"
  shows "decrypt_row s = decrypt_row self"
  by (intro ext) (simp add: decrypt_row_def decrypt_cong [OF assms] cong: sum.case_cong)

lemma getcredentials_rows_cong:
  assumes "key s = key self"
  shows "getcredentials_rows s rs acc = getcredentials_rows self rs acc"
  by (induction rs arbitrary: acc) (simp_all add: decrypt_row_cong [OF assms] cong: sum.case_cong)

lemma getcredentials_cong:
  assumes "cifstab s = cifstab self" and "key s = key self"
  shows "getcredentials s n = getcredentials self n"
  by (simp add: getcredentials_def getcredentials_rows_cong [OF assms(2)] assms(1)
        cong: option.case_cong)

lemma mount_names_absent:
  "getcredentials self name = Inr None \<Longrightarrow>
   mount_names E a (name # rest) self = mount_names E a rest (not_found name self)"
  by (simp add: Let_def not_found_def)

lemma mount_names_umount:
  "getcredentials self name = Inr (Some c) \<Longrightarrow> arg_u a \<Longrightarrow>
   mount_names E a (name # rest) self =
     (case execute E (umount_cmd c) name retryschema_umount 0
             (emit (Syslog (u ''Attempting umount '' @ name)) self) of
        Inl e \<Rightarrow> Inl e
      | Inr s \<Rightarrow> mount_names E a rest s)"
  by (simp add: Let_def)

lemma mount_names_mount:
  "getcredentials self name = Inr (Some c) \<Longrightarrow> \<not> arg_u a \<Longrightarrow>
   mount_names E a (name # rest) self =
     (case (if path_exists E (trace (emit (Syslog (u ''Attempting mount '' @ name)) self))
                 (c_mountpoint c) then None
            else makedirs E (trace (emit (Syslog (u ''Attempting mount '' @ name)) self))
                   (c_mountpoint c)) of
        Some e \<Rightarrow> Inl (e, emit (Syslog (u ''Attempting mount '' @ name)) self)
      | None \<Rightarrow>
         (case execute E (mount_cmd c) name (map fst retryschema_mount) 0
                 (if path_exists E (trace (emit (Syslog (u ''Attempting mount '' @ name)) self))
                       (c_mountpoint c)
                  then emit (Syslog (u ''Attempting mount '' @ name)) self
                  else emit (Makedirs (c_mountpoint c))
                         (emit (Syslog (u ''Attempting mount '' @ name)) self)) of
            Inl e \<Rightarrow> Inl e
          | Inr s \<Rightarrow> mount_names E a rest s))"
  by (simp add: Let_def)


lemma mount_names_Cons_Inr:
  assumes "mount_names E a (name # rest) self = Inr s"
  obtains (absent) "getcredentials self name = Inr None"
      "mount_names E a rest (not_found name self) = Inr s"
  | (found) c self1 self2 cmd ro where "getcredentials self name = Inr (Some c)"
      "execute E cmd name ro 0 self1 = Inr self2"
      "status self1 = status self" "cifstab self1 = cifstab self" "key self1 = key self"
      "retries self1 = retries self" "waitsecs self1 = waitsecs self"
      "spawned (trace self1) = spawned (trace self)"
      "mount_names E a rest self2 = Inr s"
proof (cases "getcredentials self name")
  case (Inl e)
  with assms show ?thesis by simp
next
  case (Inr oc)
  show ?thesis
  proof (cases oc)
    case None
    with Inr assms absent show ?thesis
      by (simp only: mount_names_absent)
  next
    case (Some c)
    note g = Inr [unfolded Some]
    show ?thesis
    proof (cases "arg_u a")
      case True
      let ?s1 = "emit (Syslog (u ''Attempting umount '' @ name)) self"
      from assms obtain s2 where
        "execute E (umount_cmd c) name retryschema_umount 0 ?s1 = Inr s2"
        "mount_names E a rest s2 = Inr s"
        unfolding mount_names_umount [OF g True] by (auto split: sum.splits)
      with g show ?thesis
        by (intro found [of c "umount_cmd c" retryschema_umount ?s1 s2])
           (simp_all add: emit_def spawned_append)
    next
      case False
      let ?s0 = "emit (Syslog (u ''Attempting mount '' @ name)) self"
      let ?s1 = "if path_exists E (trace ?s0) (c_mountpoint c) then ?s0
                 else emit (Makedirs (c_mountpoint c)) ?s0"
      from assms obtain s2 where
        "execute E (mount_cmd c) name (map fst retryschema_mount) 0 ?s1 = Inr s2"
        "mount_names E a rest s2 = Inr s"
        unfolding mount_names_mount [OF g False] by (auto split: sum.splits option.splits)
      with g show ?thesis
        by (intro found [of c "mount_cmd c" "map fst retryschema_mount" ?s1 s2])
           (simp_all add: emit_def spawned_append)
    qed
  qed
qed

lemma execute_body_status:
  assumes "execute_body E cmd name retryon er self = Inr c"
    and "c = Continue (rc, s) \<or> c = Break (rc, s)"
  shows "(flag_ok (status self) \<longrightarrow> flag_ok (status s)) \<and>
         (error (status self) = 1 \<longrightarrow> error (status s) = 1) \<and>
         set (messages (status self)) \<subseteq> set (messages (status s))"
  using assms
  by (auto simp: body_defs flag_ok_def split: prod.splits option.splits if_splits)

lemma execute_loop_status:
  assumes "execute_loop E cmd name retryon er rc self = Inr (rc', s)"
  shows "(flag_ok (status self) \<longrightarrow> flag_ok (status s)) \<and>
         (error (status self) = 1 \<longrightarrow> error (status s) = 1) \<and>
         set (messages (status self)) \<subseteq> set (messages (status s))"
proof (rule execute_loop_invariant [OF assms, where P = "\<lambda>x.
         (flag_ok (status self) \<longrightarrow> flag_ok (status x)) \<and>
         (error (status self) = 1 \<longrightarrow> error (status x) = 1) \<and>
         set (messages (status self)) \<subseteq> set (messages (status x))"])
  show "(flag_ok (status self) \<longrightarrow> flag_ok (status self)) \<and>
        (error (status self) = 1 \<longrightarrow> error (status self) = 1) \<and>
        set (messages (status self)) \<subseteq> set (messages (status self))"
    by simp
next
  fix s0 a c rc1 s1
  assume P: "(flag_ok (status self) \<longrightarrow> flag_ok (status s0)) \<and>
        (error (status self) = 1 \<longrightarrow> error (status s0) = 1) \<and>
        set (messages (status self)) \<subseteq> set (messages (status s0))"
    and b: "execute_body E cmd name retryon er s0 = Inr c"
    and c: "c = Continue (rc1, s1) \<or> c = Break (rc1, s1)"
  from execute_body_status [OF b c] P
  show "(flag_ok (status self) \<longrightarrow> flag_ok (status s1)) \<and>
        (error (status self) = 1 \<longrightarrow> error (status s1) = 1) \<and>
        set (messages (status self)) \<subseteq> set (messages (status s1))"
    by blast
qed

lemma execute_effect:
  assumes "execute E cmd name retryon er self = Inr s"
  shows "cifstab s = cifstab self \<and> key s = key self \<and> retries s = retries self \<and>
         waitsecs s = waitsecs self \<and>
         (\<forall>n. n \<noteq> name \<longrightarrow> attempts (status s) n = attempts (status self) n) \<and>
         ((success (status s) = success (status self) @ [name] \<and>
           failed (status s) = failed (status self)) \<or>
          (failed (status s) = failed (status self) @ [name] \<and>
           success (status s) = success (status self))) \<and>
         (flag_ok (status self) \<longrightarrow> flag_ok (status s)) \<and>
         (error (status self) = 1 \<longrightarrow> error (status s) = 1) \<and>
         set (messages (status self)) \<subseteq> set (messages (status s))"
proof -
  let ?S = "set_attempts name 0 self"
  from execute_Inr [OF assms]
  obtain rc' s1 where l: "execute_loop E cmd name retryon er None ?S = Inr (rc', s1)"
    and s: "s = record_failed name s1 \<or> s = record_success name s1"
    by auto
  have 1: "same_lists ?S s1" using execute_loop_same_lists [OF l] .
  have 2: "\<forall>n. n \<noteq> name \<longrightarrow> attempts (status s1) n = attempts (status ?S) n"
    using execute_loop_attempts_other [OF l] by blast
  note 3 = execute_loop_status [OF l]
  have a: "cifstab s = cifstab self \<and> key s = key self \<and> retries s = retries self \<and>
         waitsecs s = waitsecs self"
    using 1 s by (auto simp: same_lists_def set_attempts_def record_failed_def record_success_def)
  have b: "\<forall>n. n \<noteq> name \<longrightarrow> attempts (status s) n = attempts (status self) n"
    using 2 s by (auto simp: set_attempts_def record_failed_def record_success_def)
  have c: "(success (status s) = success (status self) @ [name] \<and>
           failed (status s) = failed (status self)) \<or>
          (failed (status s) = failed (status self) @ [name] \<and>
           success (status s) = success (status self))"
    using 1 s by (auto simp: same_lists_def set_attempts_def record_failed_def record_success_def)
  have d: "flag_ok (status self) \<longrightarrow> flag_ok (status s)"
    using 1 3 s
    by (auto simp: same_lists_def flag_ok_def set_attempts_def record_failed_def record_success_def)
  have e: "error (status self) = 1 \<longrightarrow> error (status s) = 1"
    using 3 s by (auto simp: set_attempts_def record_failed_def record_success_def)
  have f: "set (messages (status self)) \<subseteq> set (messages (status s))"
    using 3 s by (auto simp: set_attempts_def record_failed_def record_success_def)
  from a b c d e f show ?thesis by blast
qed


lemma not_found_simps:
  "cifstab (not_found name self) = cifstab self"
  "key (not_found name self) = key self"
  "error (status (not_found name self)) = 1"
  "messages (status (not_found name self)) = messages (status self) @ [not_found_message name]"
  "failed (status (not_found name self)) = failed (status self)"
  "success (status (not_found name self)) = success (status self)"
  "attempts (status (not_found name self)) = attempts (status self)"
  "spawned (trace (not_found name self)) = spawned (trace self)"
  by (simp_all add: not_found_def set_error_def add_message_def emit_def spawned_append)

lemma not_found_flag_ok: "flag_ok (status self) \<Longrightarrow> flag_ok (status (not_found name self))"
  by (simp add: flag_ok_def not_found_simps)

lemma mount_names_status:
  "mount_names E a ns self = Inr s \<Longrightarrow>
     cifstab s = cifstab self \<and> key s = key self \<and>
     (flag_ok (status self) \<longrightarrow> flag_ok (status s)) \<and>
     (error (status self) = 1 \<longrightarrow> error (status s) = 1) \<and>
     set (messages (status self)) \<subseteq> set (messages (status s))"
proof (induction ns arbitrary: self)
  case Nil
  then show ?case by simp
next
  case (Cons n ns)
  from Cons.prems show ?case
  proof (cases rule: mount_names_Cons_Inr)
    case absent
    from Cons.IH [OF absent(2)] show ?thesis
      by (auto simp: not_found_simps not_found_flag_ok)
  next
    case (found c self1 self2 cmd ro)
    from execute_effect [OF found(2)] found(3-5) Cons.IH [OF found(9)]
    show ?thesis by auto
  qed
qed

lemma mount_names_absent_effect:
  "mount_names E a ns self = Inr s \<Longrightarrow> getcredentials self name = Inr None \<Longrightarrow>
     (name \<in> set ns \<longrightarrow>
        error (status s) = 1 \<and> not_found_message name \<in> set (messages (status s))) \<and>
     attempts (status s) name = attempts (status self) name \<and>
     (name \<in> set (failed (status s))) = (name \<in> set (failed (status self))) \<and>
     (name \<in> set (success (status s))) = (name \<in> set (success (status self)))"
proof (induction ns arbitrary: self)
  case Nil
  then show ?case by simp
next
  case (Cons n ns)
  from Cons.prems(1) show ?case
  proof (cases rule: mount_names_Cons_Inr)
    case absent
    have g: "getcredentials (not_found n self) name = Inr None"
      using Cons.prems(2) getcredentials_cong [of "not_found n self" self name]
      by (simp add: not_found_simps)
    note ih = Cons.IH [OF absent(2) g]
    note st = mount_names_status [OF absent(2)]
    show ?thesis
    proof (cases "n = name")
      case True
      from st have "error (status s) = 1" "not_found_message name \<in> set (messages (status s))"
        using True by (auto simp: not_found_simps)
      with ih show ?thesis by (simp add: not_found_simps)
    next
      case False
      with ih show ?thesis by (simp add: not_found_simps)
    qed
  next
    case (found c self1 self2 cmd ro)
    from found(1) Cons.prems(2) have ne: "name \<noteq> n" by auto
    note ex = execute_effect [OF found(2)]
    have g: "getcredentials self2 name = Inr None"
      using Cons.prems(2) ex found(4,5) getcredentials_cong [of self2 self name] by simp
    note ih = Cons.IH [OF found(9) g]
    from ex ne found(3) have
      "attempts (status self2) name = attempts (status self) name"
      "(name \<in> set (failed (status self2))) = (name \<in> set (failed (status self)))"
      "(name \<in> set (success (status self2))) = (name \<in> set (success (status self)))"
      by auto
    with ih ne show ?thesis by simp
  qed
qed

lemma mount_names_done:
  "mount_names E a ns self = Inr s \<Longrightarrow>
     mset (success (status s) @ failed (status s)) =
       mset (success (status self) @ failed (status self)) +
       mset (filter (\<lambda>n. getcredentials self n \<noteq> Inr None) ns)"
proof (induction ns arbitrary: self)
  case Nil
  then show ?case by simp
next
  case (Cons n ns)
  from Cons.prems show ?case
  proof (cases rule: mount_names_Cons_Inr)
    case absent
    have "\<And>m. getcredentials (not_found n self) m = getcredentials self m"
      by (rule getcredentials_cong) (simp_all add: not_found_simps)
    with Cons.IH [OF absent(2)] absent(1) show ?thesis
      by (simp add: not_found_simps)
  next
    case (found c self1 self2 cmd ro)
    note ex = execute_effect [OF found(2)]
    have "\<And>m. getcredentials self2 m = getcredentials self m"
      using ex found(4,5) by (intro getcredentials_cong) simp_all
    with Cons.IH [OF found(9)] found(1,3) ex show ?thesis
      by auto
  qed
qed

lemma first_occurrences_filter:
  "first_occurrences (filter P xs) = filter P (first_occurrences xs)"
  by (induction xs) (auto intro: filter_cong)

lemma set_first_occurrences: "set (first_occurrences xs) = set xs"
  by (induction xs) auto

lemma distinct_first_occurrences: "distinct (first_occurrences xs)"
  by (induction xs) (auto simp: set_first_occurrences)

lemma fromkeys_first_occurrences:
  "fromkeys d xs = d @ first_occurrences (filter (\<lambda>x. x \<notin> set d) xs)"
proof (induction xs arbitrary: d)
  case Nil
  then show ?case by simp
next
  case (Cons x xs)
  show ?case
  proof (cases "x \<in> set d")
    case True
    then show ?thesis by (simp add: Cons.IH)
  next
    case False
    have "filter (\<lambda>y. y \<notin> set (d @ [x])) xs = filter (\<lambda>y. y \<noteq> x) (filter (\<lambda>y. y \<notin> set d) xs)"
      by (induction xs) auto
    with False show ?thesis
      by (simp add: Cons.IH first_occurrences_filter)
  qed
qed

section \<open>UTF-8: decoding inverts encoding\<close>

lemma unat8: "x < 256 \<Longrightarrow> unat (of_nat x :: 8 word) = x"
  by (simp add: unat_of_nat)

lemma div64_lt: "(c::nat) < 0x800 \<Longrightarrow> c div 64 < 32" by simp
lemma div4096_lt: "(c::nat) < 0x10000 \<Longrightarrow> c div 4096 < 16" by simp
lemma div262144_lt: "(c::nat) < 0x110000 \<Longrightarrow> c div 262144 < 5" by simp
lemma split3: "(c::nat) div 4096 * 4096 + c div 64 mod 64 * 64 + c mod 64 = c"
proof -
  have d: "c div 64 div 64 = c div 4096" by (simp add: div_mult2_eq [symmetric])
  have "c div 64 = c div 64 div 64 * 64 + c div 64 mod 64" by simp
  then have "c div 64 = c div 4096 * 64 + c div 64 mod 64" unfolding d .
  then have "c div 4096 * 4096 + c div 64 mod 64 * 64 = c div 64 * 64" by simp
  then show ?thesis by simp
qed
lemma split4: "(c::nat) div 262144 * 262144 + c div 4096 mod 64 * 4096 + c div 64 mod 64 * 64 + c mod 64 = c"
proof -
  have d: "c div 4096 div 64 = c div 262144" by (simp add: div_mult2_eq [symmetric])
  have "c div 4096 = c div 4096 div 64 * 64 + c div 4096 mod 64" by simp
  then have "c div 4096 = c div 262144 * 64 + c div 4096 mod 64" unfolding d .
  then have "c div 262144 * 262144 + c div 4096 mod 64 * 4096 = c div 4096 * 4096" by simp
  with split3 [of c] show ?thesis by simp
qed

lemma decode1:
  assumes "c < 0x80"
  shows "decode_cp (of_nat c # rest) = Some (c, rest)"
proof -
  define b0 :: "8 word" where "b0 = of_nat c"
  have "unat b0 = c" unfolding b0_def using assms by (intro unat8) simp
  then show ?thesis
    unfolding b0_def [symmetric] using assms by (simp add: decode_cp_def Let_def)
qed

lemma decode2:
  assumes "0x80 \<le> c" and "c < 0x800"
  shows "decode_cp (of_nat (0xC0 + c div 64) # of_nat (0x80 + c mod 64) # rest) = Some (c, rest)"
proof -
  define b0 :: "8 word" where "b0 = of_nat (0xC0 + c div 64)"
  define b1 :: "8 word" where "b1 = of_nat (0x80 + c mod 64)"
  have lt: "c div 64 < 32" using assms by (intro div64_lt) simp
  have 0: "unat b0 = 0xC0 + c div 64" unfolding b0_def using lt by (intro unat8) simp
  have 1: "unat b1 = 0x80 + c mod 64" unfolding b1_def by (intro unat8) simp
  have c: "c div 64 * 64 + c mod 64 = c" by simp
  show ?thesis
    unfolding b0_def [symmetric] b1_def [symmetric] using assms c lt
    by (simp add: decode_cp_def Let_def 0 1 cont_def cbits_def)
qed

lemma decode3:
  assumes "0x800 \<le> c" and "c < 0x10000" and "\<not> surrogate c"
  shows "decode_cp (of_nat (0xE0 + c div 4096) # of_nat (0x80 + c div 64 mod 64) #
           of_nat (0x80 + c mod 64) # rest) = Some (c, rest)"
proof -
  define b0 :: "8 word" where "b0 = of_nat (0xE0 + c div 4096)"
  define b1 :: "8 word" where "b1 = of_nat (0x80 + c div 64 mod 64)"
  define b2 :: "8 word" where "b2 = of_nat (0x80 + c mod 64)"
  have lt: "c div 4096 < 16" using assms by (intro div4096_lt) simp
  have 0: "unat b0 = 0xE0 + c div 4096" unfolding b0_def using lt by (intro unat8) simp
  have 1: "unat b1 = 0x80 + c div 64 mod 64" unfolding b1_def by (intro unat8) simp
  have 2: "unat b2 = 0x80 + c mod 64" unfolding b2_def by (intro unat8) simp
  have c: "c div 4096 * 4096 + c div 64 mod 64 * 64 + c mod 64 = c" by (rule split3)
  show ?thesis
    unfolding b0_def [symmetric] b1_def [symmetric] b2_def [symmetric] using assms c lt
    by (simp add: decode_cp_def Let_def 0 1 2 cont_def cbits_def)
qed

lemma decode4:
  assumes "0x10000 \<le> c" and "c < 0x110000"
  shows "decode_cp (of_nat (0xF0 + c div 262144) # of_nat (0x80 + c div 4096 mod 64) #
           of_nat (0x80 + c div 64 mod 64) # of_nat (0x80 + c mod 64) # rest) = Some (c, rest)"
proof -
  define b0 :: "8 word" where "b0 = of_nat (0xF0 + c div 262144)"
  define b1 :: "8 word" where "b1 = of_nat (0x80 + c div 4096 mod 64)"
  define b2 :: "8 word" where "b2 = of_nat (0x80 + c div 64 mod 64)"
  define b3 :: "8 word" where "b3 = of_nat (0x80 + c mod 64)"
  have lt: "c div 262144 < 5" using assms by (intro div262144_lt) simp
  have 0: "unat b0 = 0xF0 + c div 262144" unfolding b0_def using lt by (intro unat8) simp
  have 1: "unat b1 = 0x80 + c div 4096 mod 64" unfolding b1_def by (intro unat8) simp
  have 2: "unat b2 = 0x80 + c div 64 mod 64" unfolding b2_def by (intro unat8) simp
  have 3: "unat b3 = 0x80 + c mod 64" unfolding b3_def by (intro unat8) simp
  have c: "c div 262144 * 262144 + c div 4096 mod 64 * 4096 + c div 64 mod 64 * 64 + c mod 64 = c"
    by (rule split4)
  show ?thesis
    unfolding b0_def [symmetric] b1_def [symmetric] b2_def [symmetric] b3_def [symmetric]
    using assms c lt
    by (simp add: decode_cp_def Let_def 0 1 2 3 cont_def cbits_def)
qed

lemma encode_cp_scalar: "scalar c \<Longrightarrow> \<exists>b. encode_cp c = Some b \<and> b \<noteq> []"
  by (auto simp: scalar_def encode_cp_def)

lemma encode_cp_Some_scalar: "encode_cp c = Some b \<Longrightarrow> scalar c"
  by (auto simp: scalar_def encode_cp_def surrogate_def split: if_splits)

lemma decode_encode_cp:
  assumes "encode_cp c = Some b"
  shows "decode_cp (b @ rest) = Some (c, rest) \<and> b \<noteq> []"
proof -
  consider "c < 0x80" | "0x80 \<le> c" "c < 0x800" | "0x800 \<le> c" "c < 0x10000" "\<not> surrogate c"
    | "0x10000 \<le> c" "c < 0x110000"
    using assms by (auto simp: encode_cp_def split: if_splits) 
  then show ?thesis
  proof cases
    case 1
    with assms decode1 [OF 1] show ?thesis by (auto simp: encode_cp_def)
  next
    case 2
    with assms decode2 [OF 2] show ?thesis by (auto simp: encode_cp_def)
  next
    case 3
    with assms decode3 [OF 3] show ?thesis by (auto simp: encode_cp_def)
  next
    case 4
    with assms decode4 [OF 4] show ?thesis by (auto simp: encode_cp_def)
  qed
qed

lemma utf8_roundtrip:
  "utf8_encode v = Inr b \<Longrightarrow> utf8_decode b = Inr v"
proof (induction v arbitrary: b)
  case Nil
  then show ?case by (simp add: utf8_decode.simps)
next
  case (Cons c cs)
  from Cons.prems obtain b1 bs where e: "encode_cp c = Some b1" "utf8_encode cs = Inr bs"
    "b = b1 @ bs"
    by (auto split: option.splits sum.splits)
  from decode_encode_cp [OF e(1), of bs] Cons.IH [OF e(2)] e(3)
  show ?case by (subst utf8_decode.simps) simp
qed

lemma utf8_encode_scalar:
  "list_all scalar v \<Longrightarrow> \<exists>b. utf8_encode v = Inr b"
proof (induction v)
  case Nil
  then show ?case by simp
next
  case (Cons c cs)
  then obtain b bs where "encode_cp c = Some b" "utf8_encode cs = Inr bs"
    using encode_cp_scalar by fastforce
  then show ?case by simp
qed

lemma bind_text_scalar: "list_all scalar n \<Longrightarrow> bind_text n = None"
  using utf8_encode_scalar [of n] by (auto simp: bind_text_def)

lemma utf8_encode_Inr_scalar:
  "utf8_encode v = Inr b \<Longrightarrow> list_all scalar v"
  by (induction v arbitrary: b) (auto split: option.splits sum.splits dest: encode_cp_Some_scalar)

section \<open>Properties of the store\<close>

lemma encrypt_decrypt:
  assumes "\<forall>r b. fernet_decrypt (key self) (fernet_encrypt (key self) r b) = Some b"
    and "list_all scalar v"
  shows "\<exists>ct. encrypt self r v = Inr ct \<and> decrypt self ct = Inr v"
proof -
  from utf8_encode_scalar [OF assms(2)] obtain b where b: "utf8_encode v = Inr b" by blast
  from utf8_roundtrip [OF b] assms(1) b show ?thesis
    by (simp add: encrypt_def decrypt_def)
qed

lemma toy_key_ok: "\<forall>r b. fernet_decrypt toy_key (fernet_encrypt toy_key r b) = Some b"
  by (simp add: toy_key_def)

lemma scalar_u: "list_all (\<lambda>c. c < 128) v \<Longrightarrow> list_all scalar v"
  by (induction v) (auto simp: scalar_def surrogate_def)

lemma emit_simps:
  "trace (emit ev s) = trace s @ [ev]" "cifstab (emit ev s) = cifstab s"
  "status (emit ev s) = status s" "key (emit ev s) = key s"
  by (simp_all add: emit_def)

lemma listmounts_trace:
  "trace (foldl (\<lambda>s n. emit (Print n) s) self ns) = trace self @ map Print ns \<and>
   cifstab (foldl (\<lambda>s n. emit (Print n) s) self ns) = cifstab self \<and>
   status (foldl (\<lambda>s n. emit (Print n) s) self ns) = status self"
  by (induction ns arbitrary: self) (simp_all add: emit_simps)

lemma utf8_encode_Inl: "utf8_encode v = Inl e \<Longrightarrow> e = UnicodeEncodeError"
  by (induction v) (auto split: option.splits sum.splits)

lemma encrypt_Inl: "encrypt self r v = Inl e \<Longrightarrow> e = UnicodeEncodeError"
  by (auto simp: encrypt_def split: sum.splits dest: utf8_encode_Inl)

lemma addmount_table:
  assumes "a_name args \<in> set (map r_name (cifstab self))"
  shows "(addmount self args password rnd = Inl (e, s) \<longrightarrow>
            e = UnicodeEncodeError \<and> cifstab s = cifstab self) \<and>
         (addmount self args password rnd = Inr s \<longrightarrow>
            cifstab s = cifstab self \<and> status s = status self \<and>
            trace s = trace self @
              Print (u ''Cifs mount name must be unique'' @ [10] @ u ''Existing names:'') #
              map Print (map r_name (cifstab self)))"
  using assms
  by (auto simp: addmount_def sql_insert_def listmounts_def listmounts_trace emit_simps
      split: sum.splits dest: encrypt_Inl)

lemma addmount_returns:
  assumes "a_name args \<in> set (map r_name (cifstab self))"
    and "list_all scalar (a_ipaddress args)" and "list_all scalar (a_sharename args)"
    and "list_all scalar (a_mountpoint args)" and "list_all scalar (a_options args)"
    and "list_all scalar (a_user args)" and "list_all scalar password"
  shows "\<exists>s. addmount self args password rnd = Inr s"
proof -
  from assms(2-) obtain b1 b2 b3 b4 b5 b6 where
    "utf8_encode (a_ipaddress args) = Inr b1" "utf8_encode (a_sharename args) = Inr b2"
    "utf8_encode (a_mountpoint args) = Inr b3" "utf8_encode (a_options args) = Inr b4"
    "utf8_encode (a_user args) = Inr b5" "utf8_encode password = Inr b6"
    by (meson utf8_encode_scalar)
  with assms(1) show ?thesis
    by (simp add: addmount_def sql_insert_def encrypt_def)
qed

section \<open>Evaluating runs on the fixtures\<close>

lemma decrypt_toy_enc:
  assumes "key self = toy_key" and "list_all scalar v"
  shows "decrypt self (toy_enc v) = Inr v"
proof -
  from utf8_encode_scalar [OF assms(2)] obtain b where b: "utf8_encode v = Inr b" by blast
  from utf8_roundtrip [OF b] b assms(1) show ?thesis
    by (simp add: decrypt_def toy_enc_def toy_key_def)
qed

lemma scalar_literals:
  "list_all scalar (u ''10.0.0.5'')" "list_all scalar (u ''docs'')" "list_all scalar (u '' '')"
  "list_all scalar (u ''alice'')" "list_all scalar (u ''secret'')" "list_all scalar (u ''/mnt/'')"
  "list_all scalar (u ''a'')" "list_all scalar (u ''b'')" "list_all scalar (u ''ghost'')"
  by (simp_all add: u_def scalar_def surrogate_def)

lemma decrypt_toy_row:
  assumes "key self = toy_key" and "list_all scalar nm"
  shows "decrypt_row self (toy_row nm) = Inr (toy_credentials nm)"
proof -
  have "list_all scalar (u ''/mnt/'' @ nm)" using assms(2) scalar_literals by simp
  then show ?thesis
    by (simp add: decrypt_row_def toy_row_def toy_credentials_def
          decrypt_toy_enc [OF assms(1)] scalar_literals)
qed

lemma getcredentials_rows_toy:
  assumes "key self = toy_key" and "list_all scalar n"
  shows "getcredentials_rows self (filter (\<lambda>r. r_name r = n) (map toy_row nms)) acc =
         Inr (if n \<in> set nms then Some (toy_credentials n) else acc)"
proof (induction nms arbitrary: acc)
  case Nil
  then show ?case by simp
next
  case (Cons m nms)
  have n: "\<And>x. r_name (toy_row x) = x" by (simp add: toy_row_def)
  show ?case
  proof (cases "m = n")
    case True
    then show ?thesis
      using Cons.IH [of "Some (toy_credentials n)"] decrypt_toy_row [OF assms]
      by (simp add: n)
  next
    case False
    then show ?thesis using Cons.IH [of acc] by (auto simp: n)
  qed
qed

lemma getcredentials_toy:
  assumes "key self = toy_key" and "cifstab self = map toy_row nms" and "list_all scalar n"
  shows "getcredentials self n = Inr (if n \<in> set nms then Some (toy_credentials n) else None)"
  by (simp add: getcredentials_def assms(2) getcredentials_rows_toy [OF assms(1,3)]
        bind_text_scalar [OF assms(3)])

lemma execute_first_run_succeeds:
  assumes "proc E (trace self) cmd = (0, err)" and "0 < retries self"
  shows "execute E cmd name ro 0 self =
           Inr (record_success name (set_attempts name 1 (emit (Spawn cmd) (set_attempts name 0 self))))"
  using assms
  by (subst execute_def, subst execute_loop.simps, simp add: body_defs)
     (subst execute_loop.simps, simp add: record_success_def)


lemma mount_names_first_run_succeeds:
  assumes "getcredentials self name = Inr (Some c)" and "\<not> arg_u a"
    and "path_exists E (trace self @ [Syslog (u ''Attempting mount '' @ name)]) (c_mountpoint c)"
    and "proc E (trace self @ [Syslog (u ''Attempting mount '' @ name)]) (mount_cmd c) = (0, err)"
    and "0 < retries self"
  shows "mount_names E a (name # rest) self =
           mount_names E a rest
             (record_success name (set_attempts name 1 (emit (Spawn (mount_cmd c))
                (set_attempts name 0 (emit (Syslog (u ''Attempting mount '' @ name)) self)))))"
proof -
  let ?s0 = "emit (Syslog (u ''Attempting mount '' @ name)) self"
  have t: "trace ?s0 = trace self @ [Syslog (u ''Attempting mount '' @ name)]"
    by (simp add: emit_simps)
  have r: "0 < retries ?s0" using assms(5) by (simp add: emit_def)
  have p: "proc E (trace ?s0) (mount_cmd c) = (0, err)" using assms(4) t by simp
  show ?thesis
    unfolding mount_names_mount [OF assms(1,2)]
    using assms(3) execute_first_run_succeeds [OF p r, of name "map fst retryschema_mount"]
    by (simp add: t)
qed

lemmas state_defs = record_success_def record_failed_def set_attempts_def emit_def
  not_found_def set_error_def add_message_def fresh_def new_status_def

lemma neq_names: "u ''ghost'' \<noteq> u ''a''" "u ''a'' \<noteq> u ''b''" "u ''a'' \<noteq> u ''ghost''"
  "u ''b'' \<noteq> u ''a''"
  by (simp_all add: u_def)

lemma run_ghost_eq:
  "run_ghost =
     Inr (record_success (u ''a'') (set_attempts (u ''a'') 1
       (emit (Spawn (mount_cmd (toy_credentials (u ''a''))))
         (set_attempts (u ''a'') 0 (emit (Syslog (u ''Attempting mount '' @ u ''a''))
            (not_found (u ''ghost'') (fresh 3 5 [toy_row (u ''a'')])))))))"
proof -
  let ?E = "env_const 0 []"
  let ?a = "mount_args [u ''ghost'', u ''a'']"
  let ?s = "fresh 3 5 [toy_row (u ''a'')]"
  have k: "key ?s = toy_key" "cifstab ?s = map toy_row [u ''a'']"
    by (simp_all add: fresh_def)
  have g: "getcredentials ?s (u ''ghost'') = Inr None"
    using getcredentials_toy [OF k scalar_literals(9)] neq_names by simp
  let ?n = "not_found (u ''ghost'') ?s"
  have kn: "key ?n = toy_key" "cifstab ?n = map toy_row [u ''a'']"
    by (simp_all add: not_found_simps fresh_def)
  have ga: "getcredentials ?n (u ''a'') = Inr (Some (toy_credentials (u ''a'')))"
    using getcredentials_toy [OF kn scalar_literals(7)] by simp
  have u: "\<not> arg_u ?a" by (simp add: mount_args_def)
  have "run_ghost = mount_names ?E ?a [u ''ghost'', u ''a''] ?s"
    using neq_names by (simp add: run_ghost_def mount_def mount_args_def)
  also have "\<dots> = mount_names ?E ?a [u ''a''] ?n"
    by (rule mount_names_absent [OF g])
  also have "\<dots> = mount_names ?E ?a []
       (record_success (u ''a'') (set_attempts (u ''a'') 1
         (emit (Spawn (mount_cmd (toy_credentials (u ''a''))))
           (set_attempts (u ''a'') 0 (emit (Syslog (u ''Attempting mount '' @ u ''a'')) ?n)))))"
    by (rule mount_names_first_run_succeeds [OF ga u, where err = "[]"])
       (simp_all add: env_const_def state_defs)
  finally show ?thesis by simp
qed

lemma init_cases:
  "(\<exists>tr. init E table k r w = Inl (SysExit 1 tr)) \<or>
   (\<exists>e tr. init E table k r w = Inl (Uncaught e tr)) \<or>
   (\<exists>self. init E table k r w = Inr self \<and> status self = new_status)"
  by (auto simp: init_def split: option.splits)

lemma run_flaky_eq:
  "run_flaky = ParserExit (exited run_flaky) \<and>
   error (status (exited run_flaky)) = 1 \<and>
   success (status (exited run_flaky)) = [u ''a''] \<and>
   failed (status (exited run_flaky)) = [] \<and>
   attempts (status (exited run_flaky)) (u ''a'') = Some 2 \<and>
   spawned (trace (exited run_flaky)) =
     [mount_cmd (toy_credentials (u ''a'')), mount_cmd (toy_credentials (u ''a''))] \<and>
   \<not> runs_ok env_flaky [] (trace (exited run_flaky))"
proof -
  let ?s = "fresh 3 5 [toy_row (u ''a'')]"
  let ?a = "mount_args [u ''a'']"
  let ?c = "toy_credentials (u ''a'')"
  let ?t = "emit (Syslog (u ''Attempting mount '' @ u ''a'')) ?s"
  have i: "init env_flaky [toy_row (u ''a'')] toy_key 3 5 = Inr ?s"
    by (simp add: init_def env_flaky_def fresh_def)
  have k: "key ?s = toy_key" "cifstab ?s = map toy_row [u ''a'']"
    by (simp_all add: fresh_def)
  have g: "getcredentials ?s (u ''a'') = Inr (Some ?c)"
    using getcredentials_toy [OF k scalar_literals(7)] by simp
  have u: "\<not> arg_u ?a" by (simp add: mount_args_def)
  have e: "\<exists>s. execute env_flaky (mount_cmd ?c) (u ''a'') (map fst retryschema_mount) 0 ?t = Inr s \<and>
        error (status s) = 1 \<and> success (status s) = [u ''a''] \<and> failed (status s) = [] \<and>
        attempts (status s) (u ''a'') = Some 2 \<and>
        spawned (trace s) = [mount_cmd ?c, mount_cmd ?c] \<and>
        \<not> runs_ok env_flaky [] (trace s)"
    apply (subst execute_def)
    apply (subst execute_loop.simps)
    apply (simp add: body_defs env_flaky_def search_busy retryschema_mount_def fresh_def
             new_status_def spawned_append sleep_def sleep_max_def)
    apply (subst execute_loop.simps)
    apply (simp add: body_defs env_flaky_def spawned_append)
    apply (subst execute_loop.simps)
    apply (simp add: record_success_def spawned_append)
    done
  then obtain s where s: "execute env_flaky (mount_cmd ?c) (u ''a'') (map fst retryschema_mount) 0 ?t = Inr s"
    "error (status s) = 1" "success (status s) = [u ''a'']" "failed (status s) = []"
    "attempts (status s) (u ''a'') = Some 2" "spawned (trace s) = [mount_cmd ?c, mount_cmd ?c]"
    "\<not> runs_ok env_flaky [] (trace s)"
    by blast
  have "mount env_flaky ?a ?s = mount_names env_flaky ?a [u ''a''] ?s"
    by (simp add: mount_def mount_args_def)
  also have "\<dots> = Inr s"
    unfolding mount_names_mount [OF g u] using s(1)
    by (simp add: env_flaky_def)
  finally have m: "mount env_flaky ?a ?s = Inr s" .
  have rf: "run_flaky = ParserExit (emit PrintStatus s)"
    using i m s(2) by (simp add: run_flaky_def main_mount_def checkstatus_def)
  show ?thesis
    unfolding rf using s by (simp add: emit_def spawned_append runs_ok_append)
qed

lemma run_surrogate_eq:
  "run_surrogate = Inl (UnicodeEncodeError, fresh 3 5 [toy_row (u ''a'')])"
  by (simp add: run_surrogate_def mount_def mount_args_def getcredentials_def bind_text_def
        encode_cp_def surrogate_def u_def)

lemma count_filter_distinct:
  assumes "distinct xs"
  shows "count (mset (filter P xs)) n = (if n \<in> set xs \<and> P n then 1 else 0)"
  using assms by (induction xs) auto

section \<open>The lists and their counts\<close>

lemma execute_lists:
  assumes "execute E cmd name retryon er self = Inr s"
  shows "((success (status s) = success (status self) @ [name] \<and>
           failed (status s) = failed (status self) \<and>
           successcount (status s) = successcount (status self) + 1 \<and>
           failedcount (status s) = failedcount (status self)) \<noteq>
          (failed (status s) = failed (status self) @ [name] \<and>
           success (status s) = success (status self) \<and>
           failedcount (status s) = failedcount (status self) + 1 \<and>
           successcount (status s) = successcount (status self))) \<and>
         (successcount (status self) = int (length (success (status self))) \<and>
          failedcount (status self) = int (length (failed (status self))) \<longrightarrow>
          successcount (status s) = int (length (success (status s))) \<and>
          failedcount (status s) = int (length (failed (status s))))"
proof -
  from execute_Inr [OF assms]
  obtain rc' s1 where l: "execute_loop E cmd name retryon er None (set_attempts name 0 self) = Inr (rc', s1)"
    and s: "s = record_failed name s1 \<or> s = record_success name s1"
    by auto
  have "same_lists (set_attempts name 0 self) s1"
    using execute_loop_same_lists [OF l] .
  then have "same_lists self s1"
    by (simp add: same_lists_def set_attempts_def)
  with s show ?thesis
    by (auto simp: same_lists_def record_failed_def record_success_def)
qed

lemma execute_counts_ok:
  assumes "execute E cmd name retryon er self = Inr s" and "counts_ok (status self)"
  shows "counts_ok (status s)"
  using execute_lists [OF assms(1)] assms(2) by (simp add: counts_ok_def)

lemma mount_names_counts_ok:
  "mount_names E a ns self = Inr s \<Longrightarrow> counts_ok (status self) \<Longrightarrow> counts_ok (status s)"
proof (induction ns arbitrary: self)
  case Nil
  then show ?case by simp
next
  case (Cons n ns)
  from Cons.prems(1) show ?case
  proof (cases rule: mount_names_Cons_Inr)
    case absent
    have "counts_ok (status (not_found n self))"
      using Cons.prems(2)
      by (simp add: counts_ok_def not_found_def set_error_def add_message_def emit_def)
    from Cons.IH [OF absent(2) this] show ?thesis .
  next
    case (found c self1 self2 cmd ro)
    from Cons.prems(2) found(3) have "counts_ok (status self1)" by simp
    from Cons.IH [OF found(9) execute_counts_ok [OF found(2) this]] show ?thesis .
  qed
qed

lemma main_mount_counts_ok:
  assumes "main_mount E table k r w a = ParserExit s"
  shows "counts_ok (status s)"
proof -
  have new: "counts_ok new_status" by (simp add: counts_ok_def new_status_def)
  from init_cases [of E table k r w] show ?thesis
  proof (elim disjE exE conjE)
    fix tr assume "init E table k r w = Inl (SysExit 1 tr)"
    with assms show ?thesis by (simp add: main_mount_def)
  next
    fix e tr assume "init E table k r w = Inl (Uncaught e tr)"
    with assms show ?thesis by (simp add: main_mount_def)
  next
    fix self assume i: "init E table k r w = Inr self" and st: "status self = new_status"
    show ?thesis
    proof (cases "mount E a self")
      case (Inl p)
      with i assms show ?thesis by (cases p) (simp add: main_mount_def)
    next
      case (Inr s1)
      have c: "counts_ok (status s1)"
      proof (cases "arg_all a")
        case True
        let ?l = "foldl (\<lambda>s n. emit (Print n) s) self (map r_name (cifstab self))"
        from Inr True have "mount_names E a (map r_name (cifstab self)) ?l = Inr s1"
          by (simp add: mount_def listmounts_def)
        from mount_names_counts_ok [OF this] st new show ?thesis
          by (simp add: listmounts_trace)
      next
        case False
        with Inr have "mount_names E a (fromkeys [] (arg_names a)) self = Inr s1"
          by (simp add: mount_def)
        from mount_names_counts_ok [OF this] st new show ?thesis by simp
      qed
      from i Inr assms have "status s = status s1"
        by (auto simp: main_mount_def checkstatus_def emit_def split: if_splits)
      with c show ?thesis by simp
    qed
  qed
qed

section \<open>The error flag and the commands run\<close>

lemma execute_body_flag:
  assumes "execute_body E cmd name ro 0 s0 = Inr c"
    and "c = Continue (rc, s1) \<or> c = Break (rc, s1)"
  shows "\<exists>more. trace s1 = trace s0 @ more \<and>
           runs_ok E (trace s0) more = (rc = 0) \<and>
           (rc = 0 \<longrightarrow> error (status s1) = error (status s0)) \<and>
           (rc \<noteq> 0 \<longrightarrow> error (status s1) = 1)"
  using assms
  by (auto simp: body_defs split: prod.splits option.splits if_splits)

lemma execute_loop_flag:
  assumes "execute_loop E cmd name ro 0 rc self = Inr (rc', s)"
    and "error (status self) = 0 \<or> error (status self) = 1"
  shows "\<exists>suf. trace s = trace self @ suf \<and>
           (error (status s) = 0) = (error (status self) = 0 \<and> runs_ok E (trace self) suf) \<and>
           (error (status s) = 0 \<or> error (status s) = 1)"
proof (rule execute_loop_invariant [OF assms(1), where P = "\<lambda>x.
         \<exists>suf. trace x = trace self @ suf \<and>
           (error (status x) = 0) = (error (status self) = 0 \<and> runs_ok E (trace self) suf) \<and>
           (error (status x) = 0 \<or> error (status x) = 1)"])
  show "\<exists>suf. trace self = trace self @ suf \<and>
           (error (status self) = 0) = (error (status self) = 0 \<and> runs_ok E (trace self) suf) \<and>
           (error (status self) = 0 \<or> error (status self) = 1)"
    using assms(2) by (intro exI [of _ "[]"]) simp
next
  fix s0 a c rc1 s1
  assume "\<exists>suf. trace s0 = trace self @ suf \<and>
           (error (status s0) = 0) = (error (status self) = 0 \<and> runs_ok E (trace self) suf) \<and>
           (error (status s0) = 0 \<or> error (status s0) = 1)"
    and b: "execute_body E cmd name ro 0 s0 = Inr c"
    and c: "c = Continue (rc1, s1) \<or> c = Break (rc1, s1)"
  then obtain suf where suf: "trace s0 = trace self @ suf"
    "(error (status s0) = 0) = (error (status self) = 0 \<and> runs_ok E (trace self) suf)"
    "error (status s0) = 0 \<or> error (status s0) = 1"
    by blast
  from execute_body_flag [OF b c] obtain more where more: "trace s1 = trace s0 @ more"
    "runs_ok E (trace s0) more = (rc1 = 0)"
    "rc1 = 0 \<longrightarrow> error (status s1) = error (status s0)"
    "rc1 \<noteq> 0 \<longrightarrow> error (status s1) = 1"
    by blast
  have "trace s1 = trace self @ (suf @ more)" using suf(1) more(1) by simp
  moreover have "(error (status s1) = 0) =
      (error (status self) = 0 \<and> runs_ok E (trace self) (suf @ more))"
    using suf more by (cases "rc1 = 0") (auto simp: runs_ok_append)
  moreover have "error (status s1) = 0 \<or> error (status s1) = 1"
    using suf(3) more(3,4) by (cases "rc1 = 0") auto
  ultimately show "\<exists>suf. trace s1 = trace self @ suf \<and>
           (error (status s1) = 0) = (error (status self) = 0 \<and> runs_ok E (trace self) suf) \<and>
           (error (status s1) = 0 \<or> error (status s1) = 1)"
    by blast
qed

lemma execute_flag:
  assumes "execute E cmd name ro 0 self = Inr s"
    and "error (status self) = 0 \<or> error (status self) = 1"
  shows "\<exists>suf. trace s = trace self @ suf \<and>
           (error (status s) = 0) =
             (error (status self) = 0 \<and> runs_ok E (trace self) suf \<and>
              failed (status s) = failed (status self)) \<and>
           (error (status s) = 0 \<or> error (status s) = 1) \<and>
           (\<exists>xs. failed (status s) = failed (status self) @ xs)"
proof -
  let ?S = "set_attempts name 0 self"
  from execute_Inr [OF assms(1)]
  obtain rc' s1 where l: "execute_loop E cmd name ro 0 None ?S = Inr (rc', s1)"
    and s: "s = record_failed name s1 \<or> s = record_success name s1"
    by auto
  have e: "error (status ?S) = 0 \<or> error (status ?S) = 1"
    using assms(2) by (simp add: set_attempts_def)
  from execute_loop_flag [OF l e] obtain suf where suf: "trace s1 = trace ?S @ suf"
    "(error (status s1) = 0) = (error (status ?S) = 0 \<and> runs_ok E (trace ?S) suf)"
    "error (status s1) = 0 \<or> error (status s1) = 1"
    by blast
  have f: "failed (status s1) = failed (status self)"
    using execute_loop_same_lists [OF l] by (simp add: same_lists_def set_attempts_def)
  from s show ?thesis
  proof
    assume "s = record_failed name s1"
    with suf f show ?thesis
      by (intro exI [of _ suf]) (simp add: record_failed_def set_attempts_def)
  next
    assume "s = record_success name s1"
    with suf f show ?thesis
      by (intro exI [of _ suf]) (simp add: record_success_def set_attempts_def)
  qed
qed


lemma mount_names_Cons_Inr_trace:
  assumes "mount_names E a (name # rest) self = Inr s"
  obtains (absent) "getcredentials self name = Inr None"
      "mount_names E a rest (not_found name self) = Inr s"
  | (found) c self1 self2 cmd ro pre where "getcredentials self name = Inr (Some c)"
      "execute E cmd name ro 0 self1 = Inr self2"
      "status self1 = status self" "cifstab self1 = cifstab self" "key self1 = key self"
      "trace self1 = trace self @ pre" "spawned pre = []"
      "mount_names E a rest self2 = Inr s"
proof (cases "getcredentials self name")
  case (Inl e)
  with assms show ?thesis by simp
next
  case (Inr oc)
  show ?thesis
  proof (cases oc)
    case None
    with Inr assms absent show ?thesis
      by (simp only: mount_names_absent)
  next
    case (Some c)
    note g = Inr [unfolded Some]
    show ?thesis
    proof (cases "arg_u a")
      case True
      let ?s1 = "emit (Syslog (u ''Attempting umount '' @ name)) self"
      from assms obtain s2 where
        "execute E (umount_cmd c) name retryschema_umount 0 ?s1 = Inr s2"
        "mount_names E a rest s2 = Inr s"
        unfolding mount_names_umount [OF g True] by (auto split: sum.splits)
      with g show ?thesis
        by (intro found [of c "umount_cmd c" retryschema_umount ?s1 s2
              "[Syslog (u ''Attempting umount '' @ name)]"])
           (simp_all add: emit_def)
    next
      case False
      let ?s0 = "emit (Syslog (u ''Attempting mount '' @ name)) self"
      let ?s1 = "if path_exists E (trace ?s0) (c_mountpoint c) then ?s0
                 else emit (Makedirs (c_mountpoint c)) ?s0"
      from assms obtain s2 where
        "execute E (mount_cmd c) name (map fst retryschema_mount) 0 ?s1 = Inr s2"
        "mount_names E a rest s2 = Inr s"
        unfolding mount_names_mount [OF g False] by (auto split: sum.splits option.splits)
      with g show ?thesis
        by (intro found [of c "mount_cmd c" "map fst retryschema_mount" ?s1 s2
              "if path_exists E (trace ?s0) (c_mountpoint c)
               then [Syslog (u ''Attempting mount '' @ name)]
               else [Syslog (u ''Attempting mount '' @ name), Makedirs (c_mountpoint c)]"])
           (simp_all add: emit_def)
    qed
  qed
qed

lemma not_found_trace:
  "trace (not_found name self) =
     trace self @ [Syslog (not_found_message name), Print (not_found_message name)]"
  by (simp add: not_found_def set_error_def add_message_def emit_def)

lemma mount_names_flag:
  "mount_names E a ns self = Inr s \<Longrightarrow> error (status self) = 0 \<or> error (status self) = 1 \<Longrightarrow>
     \<exists>suf. trace s = trace self @ suf \<and>
       (error (status s) = 0) =
         (error (status self) = 0 \<and>
          list_all (\<lambda>n. getcredentials self n \<noteq> Inr None) ns \<and>
          runs_ok E (trace self) suf \<and>
          failed (status s) = failed (status self)) \<and>
       (error (status s) = 0 \<or> error (status s) = 1) \<and>
       (\<exists>xs. failed (status s) = failed (status self) @ xs)"
proof (induction ns arbitrary: self)
  case Nil
  then show ?case by (intro exI [of _ "[]"]) simp
next
  case (Cons n ns)
  from Cons.prems(1) show ?case
  proof (cases rule: mount_names_Cons_Inr_trace)
    case absent
    let ?n = "not_found n self"
    have e: "error (status ?n) = 0 \<or> error (status ?n) = 1" by (simp add: not_found_simps)
    from Cons.IH [OF absent(2) e] obtain suf xs where suf: "trace s = trace ?n @ suf"
      "error (status s) = 0 \<or> error (status s) = 1"
      "(error (status s) = 0) =
         (error (status ?n) = 0 \<and> list_all (\<lambda>m. getcredentials ?n m \<noteq> Inr None) ns \<and>
          runs_ok E (trace ?n) suf \<and> failed (status s) = failed (status ?n))"
      "failed (status s) = failed (status ?n) @ xs"
      by blast
    let ?suf = "[Syslog (not_found_message n), Print (not_found_message n)] @ suf"
    have "trace s = trace self @ ?suf" using suf(1) by (simp add: not_found_trace)
    moreover have "error (status s) \<noteq> 0" using suf(3) by (simp add: not_found_simps)
    moreover have "\<exists>xs. failed (status s) = failed (status self) @ xs"
      using suf(4) by (simp add: not_found_simps)
    ultimately show ?thesis
      using absent(1) suf(2) by (intro exI [of _ ?suf]) simp
  next
    case (found c self1 self2 cmd ro pre)
    have e1: "error (status self1) = 0 \<or> error (status self1) = 1"
      using Cons.prems(2) found(3) by simp
    from execute_flag [OF found(2) e1] obtain suf1 xs1 where s1: "trace self2 = trace self1 @ suf1"
      "(error (status self2) = 0) =
         (error (status self1) = 0 \<and> runs_ok E (trace self1) suf1 \<and>
          failed (status self2) = failed (status self1))"
      "error (status self2) = 0 \<or> error (status self2) = 1"
      "failed (status self2) = failed (status self1) @ xs1"
      by blast
    from Cons.IH [OF found(8) s1(3)] obtain suf2 xs2 where s2: "trace s = trace self2 @ suf2"
      "(error (status s) = 0) =
         (error (status self2) = 0 \<and> list_all (\<lambda>m. getcredentials self2 m \<noteq> Inr None) ns \<and>
          runs_ok E (trace self2) suf2 \<and> failed (status s) = failed (status self2))"
      "error (status s) = 0 \<or> error (status s) = 1"
      "failed (status s) = failed (status self2) @ xs2"
      by blast
    note ex = execute_effect [OF found(2)]
    have g: "\<And>m. getcredentials self2 m = getcredentials self m"
      using ex found(4,5) by (intro getcredentials_cong) simp_all
    let ?suf = "pre @ suf1 @ suf2"
    have t: "trace s = trace self @ ?suf" using s1(1) s2(1) found(6) by simp
    have r: "runs_ok E (trace self) ?suf =
        (runs_ok E (trace self1) suf1 \<and> runs_ok E (trace self2) suf2)"
      using found(6,7) s1(1) by (simp add: runs_ok_append runs_ok_no_spawn)
    have f: "(failed (status s) = failed (status self)) =
        (failed (status self2) = failed (status self1) \<and> failed (status s) = failed (status self2))"
      using s1(4) s2(4) found(3) by auto
    have x: "\<exists>xs. failed (status s) = failed (status self) @ xs"
      using s1(4) s2(4) found(3) by simp
    have "(error (status s) = 0) =
         (error (status self) = 0 \<and>
          list_all (\<lambda>m. getcredentials self m \<noteq> Inr None) (n # ns) \<and>
          runs_ok E (trace self) ?suf \<and>
          failed (status s) = failed (status self))"
      unfolding r f using s1(2) s2(2) found(1,3) by (auto simp: g)
    with t s2(3) x show ?thesis by blast
  qed
qed

lemma getcredentials_rows_None:
  "getcredentials_rows self rs acc = Inr None \<Longrightarrow> rs = [] \<and> acc = None"
  by (induction rs arbitrary: acc) (auto split: sum.splits)

lemma getcredentials_stored:
  "n \<in> set (map r_name (cifstab self)) \<Longrightarrow> getcredentials self n \<noteq> Inr None"
proof
  assume n: "n \<in> set (map r_name (cifstab self))" and g: "getcredentials self n = Inr None"
  from g have "getcredentials_rows self (filter (\<lambda>r. r_name r = n) (cifstab self)) None = Inr None"
    by (auto simp: getcredentials_def split: option.splits)
  from getcredentials_rows_None [OF this] have "filter (\<lambda>r. r_name r = n) (cifstab self) = []"
    by simp
  with n show False by (auto simp: filter_empty_conv)
qed

lemma getcredentials_not_stored:
  "n \<notin> set (map r_name (cifstab self)) \<Longrightarrow> getcredentials self n = Inr r \<Longrightarrow> r = None"
proof -
  assume n: "n \<notin> set (map r_name (cifstab self))" and g: "getcredentials self n = Inr r"
  from n have "filter (\<lambda>r. r_name r = n) (cifstab self) = []"
    by (auto simp: filter_empty_conv)
  with g show "r = None"
    by (auto simp: getcredentials_def split: option.splits)
qed

lemma mount_names_lookups:
  "mount_names E a ns self = Inr s \<Longrightarrow> n \<in> set ns \<Longrightarrow> \<exists>r. getcredentials self n = Inr r"
proof (induction ns arbitrary: self)
  case Nil
  then show ?case by simp
next
  case (Cons m ns)
  from Cons.prems(1) show ?case
  proof (cases rule: mount_names_Cons_Inr)
    case absent
    have g: "getcredentials (not_found m self) n = getcredentials self n"
      by (rule getcredentials_cong) (simp_all add: not_found_simps)
    from Cons.prems(2) absent(1) Cons.IH [OF absent(2)] g show ?thesis by auto
  next
    case (found c self1 self2 cmd ro)
    note ex = execute_effect [OF found(2)]
    have g: "getcredentials self2 n = getcredentials self n"
      using ex found(4,5) by (intro getcredentials_cong) simp_all
    from Cons.prems(2) found(1) Cons.IH [OF found(9)] g show ?thesis by auto
  qed
qed

lemma mount_names_found_iff:
  assumes "mount_names E a ns self = Inr s"
  shows "list_all (\<lambda>n. getcredentials self n \<noteq> Inr None) ns =
         list_all (\<lambda>n. n \<in> set (map r_name (cifstab self))) ns"
proof -
  have "\<And>n. n \<in> set ns \<Longrightarrow>
      (getcredentials self n \<noteq> Inr None) = (n \<in> set (map r_name (cifstab self)))"
    using mount_names_lookups [OF assms] getcredentials_stored getcredentials_not_stored
    by metis
  then show ?thesis by (auto simp: list_all_iff)
qed


lemma init_Inr:
  assumes "init E table k r w = Inr self"
  shows "status self = new_status" "cifstab self = table" "spawned (trace self) = []"
  using assms by (auto simp: init_def split: option.splits if_splits)

lemma spawned_map_Print: "spawned (map (Print \<circ> f) ns) = []"
  by (induction ns) simp_all

lemma init_Inl:
  "init E table k r w = Inl fin \<Longrightarrow> exit_code fin = 1 \<and> (\<forall>s. fin \<noteq> ParserExit s)"
  by (auto simp: init_def split: option.splits if_splits)

lemma list_all_fromkeys: "list_all P (fromkeys [] ns) = list_all P ns"
  using fromkeys_first_occurrences [of "[]" ns]
  by (simp add: list_all_iff set_first_occurrences)

lemma mount_flag:
  assumes "mount E a self = Inr s" and "status self = new_status"
    and "spawned (trace self) = []"
  shows "(error (status s) = 0) =
           ((arg_all a \<or> list_all (\<lambda>n. n \<in> set (map r_name (cifstab self))) (arg_names a)) \<and>
            runs_ok E [] (trace s) \<and> failed (status s) = []) \<and>
         (error (status s) = 0 \<or> error (status s) = 1)"
proof -
  obtain ns self1 where m: "mount_names E a ns self1 = Inr s"
    and st: "status self1 = new_status" and tb: "cifstab self1 = cifstab self"
    and sp: "spawned (trace self1) = []"
    and ns: "list_all (\<lambda>n. n \<in> set (map r_name (cifstab self))) ns =
       (arg_all a \<or> list_all (\<lambda>n. n \<in> set (map r_name (cifstab self))) (arg_names a))"
  proof (cases "arg_all a")
    case True
    let ?s1 = "foldl (\<lambda>s n. emit (Print n) s) self (map r_name (cifstab self))"
    from assms(1) True have "mount_names E a (map r_name (cifstab self)) ?s1 = Inr s"
      by (simp add: mount_def listmounts_def)
    moreover have "spawned (trace ?s1) = []"
      using assms(3) by (simp add: listmounts_trace spawned_append spawned_map_Print)
    ultimately show ?thesis
      using True assms(2) by (intro that [of "map r_name (cifstab self)" ?s1])
        (simp_all add: listmounts_trace list_all_iff)
  next
    case False
    with assms show ?thesis
      by (intro that [of "fromkeys [] (arg_names a)" self])
         (simp_all add: mount_def list_all_fromkeys)
  qed
  have e: "error (status self1) = 0 \<or> error (status self1) = 1"
    using st by (simp add: new_status_def)
  from mount_names_flag [OF m e] obtain suf where suf: "trace s = trace self1 @ suf"
    "(error (status s) = 0) =
         (error (status self1) = 0 \<and>
          list_all (\<lambda>n. getcredentials self1 n \<noteq> Inr None) ns \<and>
          runs_ok E (trace self1) suf \<and>
          failed (status s) = failed (status self1))"
    "error (status s) = 0 \<or> error (status s) = 1"
    by blast
  have r: "runs_ok E [] (trace s) = runs_ok E (trace self1) suf"
    using suf(1) sp by (simp add: runs_ok_append runs_ok_no_spawn)
  have "(error (status s) = 0) =
           (list_all (\<lambda>n. n \<in> set (map r_name (cifstab self))) ns \<and>
            runs_ok E [] (trace s) \<and> failed (status s) = [])"
    using suf(2) mount_names_found_iff [OF m] st tb r by (simp add: new_status_def)
  with ns suf(3) show ?thesis by simp
qed

lemma main_mount_flag:
  "(exit_code (main_mount E table k r w a) = 0 \<or> exit_code (main_mount E table k r w a) = 1) \<and>
   (exit_code (main_mount E table k r w a) = 0) =
     (\<exists>s. main_mount E table k r w a = ParserExit s \<and>
        (arg_all a \<or> list_all (\<lambda>n. n \<in> set (map r_name table)) (arg_names a)) \<and>
        runs_ok E [] (trace s) \<and> failed (status s) = [])"
proof (cases "init E table k r w")
  case (Inl fin)
  with init_Inl [OF Inl] show ?thesis by (simp add: main_mount_def)
next
  case (Inr self)
  note i = init_Inr [OF Inr]
  show ?thesis
  proof (cases "mount E a self")
    case (Inl p)
    with Inr show ?thesis by (cases p) (simp add: main_mount_def)
  next
    case (Inr s)
    note mf = mount_flag [OF Inr i(1) i(3), unfolded i(2)]
    note f = conjunct1 [OF mf] conjunct2 [OF mf]
    have m: "main_mount E table k r w a = checkstatus s"
      using \<open>init E table k r w = Inr self\<close> Inr by (simp add: main_mount_def)
    show ?thesis
    proof (cases "error (status s) = 0")
      case True
      with f show ?thesis unfolding m by (simp add: checkstatus_def)
    next
      case False
      with f show ?thesis unfolding m
        by (simp add: checkstatus_def emit_def runs_ok_append)
    qed
  qed
qed

lemma getcredentials_absent:
  assumes "list_all scalar n" and "n \<notin> set (map r_name (cifstab self))"
  shows "getcredentials self n = Inr None"
proof -
  from assms(2) have "filter (\<lambda>r. r_name r = n) (cifstab self) = []"
    by (auto simp: filter_empty_conv)
  then show ?thesis
    by (simp add: getcredentials_def bind_text_scalar [OF assms(1)])
qed

section \<open>Claims about the store\<close>

text \<open>
  Claim C6. For every field value \<open>v\<close> that can be encoded as UTF-8 (a string of Unicode
  scalar values), \<open>encrypt\<close> returns a ciphertext and \<open>decrypt\<close> of that ciphertext
  returns \<open>v\<close>. Fernet is a library outside the repository: its contract, that
  decryption under a key returns the bytes that were encrypted under it, whatever the
  library drew for the token, is the first hypothesis.
\<close>

theorem C6_round_trip:
  assumes "\<forall>r b. fernet_decrypt (key self) (fernet_encrypt (key self) r b) = Some b"
    and "list_all scalar v"
  shows "\<exists>ct. encrypt self r v = Inr ct \<and> decrypt self ct = Inr v"
  using assms by (rule encrypt_decrypt)

theorem C6_round_trip_witness:
  "(\<forall>r b. fernet_decrypt (key (fresh 3 5 [])) (fernet_encrypt (key (fresh 3 5 [])) r b) = Some b) \<and>
   list_all scalar (u ''secret'') \<and>
   (\<exists>ct. encrypt (fresh 3 5 []) 7 (u ''secret'') = Inr ct \<and>
         decrypt (fresh 3 5 []) ct = Inr (u ''secret''))"
proof -
  have k: "\<forall>r b. fernet_decrypt (key (fresh 3 5 [])) (fernet_encrypt (key (fresh 3 5 [])) r b) = Some b"
    using toy_key_ok by (simp add: fresh_def)
  have v: "list_all scalar (u ''secret'')"
    by (simp add: u_def scalar_def surrogate_def)
  from C6_round_trip [OF k v, of 7] k v show ?thesis by blast
qed

text \<open>
  Claim C7. When the name of the new entry is already in the table, the insertion raises
  \<open>IntegrityError\<close>; \<open>addmount\<close> catches it, prints that the name must be unique and
  lists the stored names, and the table is the same list of rows as before, whether
  \<open>addmount\<close> returns or a field that cannot be encoded raises before the insertion. With
  valid field values \<open>addmount\<close> returns.
\<close>

theorem C7_duplicate_name:
  assumes "a_name args \<in> set (map r_name (cifstab self))"
  shows "(\<forall>r. r_name r = a_name args \<longrightarrow> sql_insert r (cifstab self) = Inl IntegrityError) \<and>
         (\<forall>e s. addmount self args password rnd = Inl (e, s) \<longrightarrow> cifstab s = cifstab self) \<and>
         (\<forall>s. addmount self args password rnd = Inr s \<longrightarrow>
            cifstab s = cifstab self \<and>
            trace s = trace self @
              Print (u ''Cifs mount name must be unique'' @ [10] @ u ''Existing names:'') #
              map Print (map r_name (cifstab self))) \<and>
         (list_all scalar (a_ipaddress args) \<and> list_all scalar (a_sharename args) \<and>
          list_all scalar (a_mountpoint args) \<and> list_all scalar (a_options args) \<and>
          list_all scalar (a_user args) \<and> list_all scalar password \<longrightarrow>
          (\<exists>s. addmount self args password rnd = Inr s))"
proof (intro conjI allI impI)
  fix r :: row assume "r_name r = a_name args"
  with assms show "sql_insert r (cifstab self) = Inl IntegrityError"
    by (simp add: sql_insert_def)
next
  fix e s assume "addmount self args password rnd = Inl (e, s)"
  with addmount_table [OF assms, of password rnd e s] show "cifstab s = cifstab self"
    by simp
next
  fix s assume a: "addmount self args password rnd = Inr s"
  with addmount_table [OF assms, of password rnd _ s] show "cifstab s = cifstab self"
    by simp
  from a addmount_table [OF assms, of password rnd _ s]
  show "trace s = trace self @
          Print (u ''Cifs mount name must be unique'' @ [10] @ u ''Existing names:'') #
          map Print (map r_name (cifstab self))"
    by simp
next
  assume "list_all scalar (a_ipaddress args) \<and> list_all scalar (a_sharename args) \<and>
          list_all scalar (a_mountpoint args) \<and> list_all scalar (a_options args) \<and>
          list_all scalar (a_user args) \<and> list_all scalar password"
  with addmount_returns [OF assms] show "\<exists>s. addmount self args password rnd = Inr s"
    by blast
qed

theorem C7_duplicate_name_witness:
  "a_name fileserver_args \<in> set (map r_name (cifstab (fresh 3 5 [toy_row (u ''fileserver'')]))) \<and>
   list_all scalar (a_ipaddress fileserver_args) \<and> list_all scalar (a_sharename fileserver_args) \<and>
   list_all scalar (a_mountpoint fileserver_args) \<and> list_all scalar (a_options fileserver_args) \<and>
   list_all scalar (a_user fileserver_args) \<and> list_all scalar (u ''secret'') \<and>
   sql_insert (toy_row (u ''fileserver'')) (cifstab (fresh 3 5 [toy_row (u ''fileserver'')])) =
     Inl IntegrityError \<and>
   (\<exists>s. addmount (fresh 3 5 [toy_row (u ''fileserver'')]) fileserver_args (u ''secret'') (\<lambda>i. i) = Inr s \<and>
        cifstab s = [toy_row (u ''fileserver'')] \<and>
        trace s =
          [Print (u ''Cifs mount name must be unique'' @ [10] @ u ''Existing names:''),
           Print (u ''fileserver'')])"
proof -
  let ?self = "fresh 3 5 [toy_row (u ''fileserver'')]"
  have n: "a_name fileserver_args \<in> set (map r_name (cifstab ?self))"
    by (simp add: fileserver_args_def fresh_def toy_row_def)
  have v: "list_all scalar (a_ipaddress fileserver_args) \<and> list_all scalar (a_sharename fileserver_args) \<and>
    list_all scalar (a_mountpoint fileserver_args) \<and> list_all scalar (a_options fileserver_args) \<and>
    list_all scalar (a_user fileserver_args) \<and> list_all scalar (u ''secret'')"
    by (simp add: fileserver_args_def u_def scalar_def surrogate_def)
  have r: "r_name (toy_row (u ''fileserver'')) = a_name fileserver_args"
    by (simp add: fileserver_args_def toy_row_def)
  note t = C7_duplicate_name [OF n, of "u ''secret''" "\<lambda>i. i"]
  from t v obtain s where s: "addmount ?self fileserver_args (u ''secret'') (\<lambda>i. i) = Inr s"
    by blast
  with t have "cifstab s = cifstab ?self \<and>
      trace s = trace ?self @
        Print (u ''Cifs mount name must be unique'' @ [10] @ u ''Existing names:'') #
        map Print (map r_name (cifstab ?self))"
    by blast
  then have "cifstab s = [toy_row (u ''fileserver'')] \<and>
      trace s = [Print (u ''Cifs mount name must be unique'' @ [10] @ u ''Existing names:''),
                 Print (u ''fileserver'')]"
    by (simp add: fresh_def toy_row_def)
  moreover from t r have "sql_insert (toy_row (u ''fileserver'')) (cifstab ?self) = Inl IntegrityError"
    by blast
  ultimately show ?thesis using n v s by blast
qed

section \<open>Claims about \<open>mount\<close> and the exit code\<close>

text \<open>
  Claim C3, as stated: for a batch with a name that is not in the store, the error flag
  is set, the name appears in the failure list of the status, and the rest of the batch
  is processed. In the run of \<open>mount -n ghost a\<close> the error flag is 1, but \<open>failed\<close> is
  empty and \<open>failedcount\<close> is 0: the branch for a missing name records a message, not
  the name. In the run of \<open>mount -n <0xFF> a\<close> the name is not in the store either, and
  the lookup itself raises \<open>UnicodeEncodeError\<close>, which nothing catches: the error flag
  is still 0, and \<open>a\<close> is not processed.
\<close>

theorem C3_counterexample:
  "\<not> isl run_ghost \<and> error (status (projr run_ghost)) = 1 \<and>
   u ''ghost'' \<notin> set (failed (status (projr run_ghost))) \<and>
   failed (status (projr run_ghost)) = [] \<and>
   failedcount (status (projr run_ghost)) = 0 \<and>
   [0xDCFF] \<notin> set (map r_name [toy_row (u ''a'')]) \<and>
   isl run_surrogate \<and> fst (projl run_surrogate) = UnicodeEncodeError \<and>
   error (status (snd (projl run_surrogate))) = 0 \<and>
   failed (status (snd (projl run_surrogate))) = [] \<and>
   success (status (snd (projl run_surrogate))) = [] \<and>
   spawned (trace (snd (projl run_surrogate))) = []"
  by (simp add: run_ghost_eq run_surrogate_eq state_defs toy_row_def u_def)

text \<open>
  Claim C3, amended. For a name that can be encoded as UTF-8 (a string of Unicode
  scalar values, the names that can be bound to the \<open>SELECT\<close>) and is not in the
  table, the lookup returns nothing and \<open>mount\<close> goes on with the rest of the batch
  after a step that runs no command; and whenever the batch completes, the error flag
  is 1, the message \<open>cifs name ... not found in cifstab\<close> for that name is among the
  messages, the name has no new attempts entry (\<open>execute\<close> was not called for it) and it
  was added neither to \<open>failed\<close> nor to \<open>success\<close>. In the witness the valid name of the
  same batch succeeds.
\<close>

theorem C3_not_found:
  assumes "list_all scalar name" and "name \<notin> set (map r_name (cifstab self))"
  shows "getcredentials self name = Inr None \<and>
         mount_names E a (name # rest) self = mount_names E a rest (not_found name self) \<and>
         spawned (trace (not_found name self)) = spawned (trace self) \<and>
         (\<forall>names s. name \<in> set names \<longrightarrow> mount_names E a names self = Inr s \<longrightarrow>
            error (status s) = 1 \<and>
            not_found_message name \<in> set (messages (status s)) \<and>
            attempts (status s) name = attempts (status self) name \<and>
            (name \<in> set (failed (status s))) = (name \<in> set (failed (status self))) \<and>
            (name \<in> set (success (status s))) = (name \<in> set (success (status self))))"
proof (intro conjI allI impI)
  show g: "getcredentials self name = Inr None"
    by (rule getcredentials_absent [OF assms])
  show "mount_names E a (name # rest) self = mount_names E a rest (not_found name self)"
    by (rule mount_names_absent [OF g])
  show "spawned (trace (not_found name self)) = spawned (trace self)"
    by (simp add: not_found_simps)
  fix names s
  assume n: "name \<in> set names" and m: "mount_names E a names self = Inr s"
  note e = mount_names_absent_effect [OF m g]
  from e n show "error (status s) = 1" by simp
  from e n show "not_found_message name \<in> set (messages (status s))" by simp
  from e show "attempts (status s) name = attempts (status self) name" by simp
  from e show "(name \<in> set (failed (status s))) = (name \<in> set (failed (status self)))" by simp
  from e show "(name \<in> set (success (status s))) = (name \<in> set (success (status self)))" by simp
qed

theorem C3_not_found_witness:
  "list_all scalar (u ''ghost'') \<and>
   u ''ghost'' \<notin> set (map r_name (cifstab (fresh 3 5 [toy_row (u ''a'')]))) \<and>
   getcredentials (fresh 3 5 [toy_row (u ''a'')]) (u ''ghost'') = Inr None \<and>
   u ''ghost'' \<in> set [u ''ghost'', u ''a''] \<and>
   (\<exists>s. mount_names (env_const 0 []) (mount_args [u ''ghost'', u ''a''])
           [u ''ghost'', u ''a''] (fresh 3 5 [toy_row (u ''a'')]) = Inr s \<and>
        error (status s) = 1 \<and>
        not_found_message (u ''ghost'') \<in> set (messages (status s)) \<and>
        attempts (status s) (u ''ghost'') = None \<and>
        u ''ghost'' \<notin> set (failed (status s)) \<and>
        success (status s) = [u ''a''] \<and>
        spawned (trace s) = [mount_cmd (toy_credentials (u ''a''))])"
proof -
  let ?s = "fresh 3 5 [toy_row (u ''a'')]"
  have sc: "list_all scalar (u ''ghost'')" by (rule scalar_literals(9))
  have ab: "u ''ghost'' \<notin> set (map r_name (cifstab ?s))"
    using neq_names by (simp add: fresh_def toy_row_def)
  have i: "u ''ghost'' \<in> set [u ''ghost'', u ''a'']" by simp
  have "mount_names (env_const 0 []) (mount_args [u ''ghost'', u ''a''])
           [u ''ghost'', u ''a''] ?s = run_ghost"
    using neq_names by (simp add: run_ghost_def mount_def mount_args_def)
  then obtain s where m: "mount_names (env_const 0 []) (mount_args [u ''ghost'', u ''a''])
           [u ''ghost'', u ''a''] ?s = Inr s"
    and s: "success (status s) = [u ''a'']"
       "spawned (trace s) = [mount_cmd (toy_credentials (u ''a''))]"
    by (simp add: run_ghost_eq state_defs spawned_append)
  note t = C3_not_found [OF sc ab, of "env_const 0 []" "mount_args [u ''ghost'', u ''a'']" "[]"]
  from t have g: "getcredentials ?s (u ''ghost'') = Inr None" by (rule conjunct1)
  from t have "error (status s) = 1 \<and>
        not_found_message (u ''ghost'') \<in> set (messages (status s)) \<and>
        attempts (status s) (u ''ghost'') = attempts (status ?s) (u ''ghost'') \<and>
        (u ''ghost'' \<in> set (failed (status s))) = (u ''ghost'' \<in> set (failed (status ?s)))"
    using i m by blast
  then have "error (status s) = 1 \<and>
        not_found_message (u ''ghost'') \<in> set (messages (status s)) \<and>
        attempts (status s) (u ''ghost'') = None \<and>
        u ''ghost'' \<notin> set (failed (status s))"
    by (simp add: fresh_def new_status_def)
  with sc ab g i m s show ?thesis by blast
qed

text \<open>
  Claim C5, as stated: the exit code is 0 when every resolved target succeeded. In the
  run of \<open>mount -n a\<close> whose first command fails with the busy error and whose second
  command succeeds, the name is found, it ends in \<open>success\<close>, \<open>failed\<close> is empty, and
  the exit code is 1: the failed attempt has set the error flag, and nothing resets it.
\<close>

theorem C5_counterexample:
  "run_flaky = ParserExit (exited run_flaky) \<and>
   success (status (exited run_flaky)) = [u ''a''] \<and>
   failed (status (exited run_flaky)) = [] \<and>
   exit_code run_flaky = 1"
proof -
  from run_flaky_eq have eq: "run_flaky = ParserExit (exited run_flaky)" by (rule conjunct1)
  have "exit_code run_flaky = error (status (exited run_flaky))"
    by (subst eq) simp
  with run_flaky_eq show ?thesis by simp
qed

text \<open>
  Claim C5, amended. The exit code of \<open>mount\<close> is 0 or 1. It is 0 exactly when the
  process reaches \<open>checkstatus\<close>, every requested name is in the table (with \<open>--all\<close>
  the names are those of the table), every command that was run returned 0, and no
  name is in \<open>failed\<close>. So it is 1 when a requested name is not in the table, when an
  attempt of a command failed (also when a later attempt for the same target
  succeeded), when a target is in \<open>failed\<close>, when an exception ended the process before
  \<open>checkstatus\<close>, and in particular when \<open>PermissionError\<close> is raised on creating the
  directory during bootstrap.
\<close>

theorem C5_exit_code:
  "(exit_code (main_mount E table k r w a) = 0 \<or> exit_code (main_mount E table k r w a) = 1) \<and>
   (exit_code (main_mount E table k r w a) = 0) =
     (\<exists>s. main_mount E table k r w a = ParserExit s \<and>
        (arg_all a \<or> list_all (\<lambda>n. n \<in> set (map r_name table)) (arg_names a)) \<and>
        runs_ok E [] (trace s) \<and> failed (status s) = []) \<and>
   (\<not> arg_all a \<and> \<not> list_all (\<lambda>n. n \<in> set (map r_name table)) (arg_names a) \<longrightarrow>
      exit_code (main_mount E table k r w a) = 1) \<and>
   (\<forall>s. main_mount E table k r w a = ParserExit s \<and>
        (\<not> runs_ok E [] (trace s) \<or> failed (status s) \<noteq> []) \<longrightarrow>
      exit_code (main_mount E table k r w a) = 1) \<and>
   ((\<forall>s. main_mount E table k r w a \<noteq> ParserExit s) \<longrightarrow>
      exit_code (main_mount E table k r w a) = 1) \<and>
   (\<not> path_exists E [] cifstabdir \<and> makedirs E [] cifstabdir = Some PermissionError \<longrightarrow>
      exit_code (main_mount E table k r w a) = 1)"
proof -
  note f = main_mount_flag [of E table k r w a]
  have b: "\<not> path_exists E [] cifstabdir \<and> makedirs E [] cifstabdir = Some PermissionError \<longrightarrow>
      exit_code (main_mount E table k r w a) = 1"
    by (simp add: main_mount_def init_def)
  from f have 1: "exit_code (main_mount E table k r w a) = 0 \<or>
      exit_code (main_mount E table k r w a) = 1"
    by (rule conjunct1)
  from f have 2: "(exit_code (main_mount E table k r w a) = 0) =
     (\<exists>s. main_mount E table k r w a = ParserExit s \<and>
        (arg_all a \<or> list_all (\<lambda>n. n \<in> set (map r_name table)) (arg_names a)) \<and>
        runs_ok E [] (trace s) \<and> failed (status s) = [])"
    by (rule conjunct2)
  from 1 2 have 3: "\<not> arg_all a \<and>
      \<not> list_all (\<lambda>n. n \<in> set (map r_name table)) (arg_names a) \<longrightarrow>
      exit_code (main_mount E table k r w a) = 1"
    by blast
  from 1 2 have 4: "\<forall>s. main_mount E table k r w a = ParserExit s \<and>
        (\<not> runs_ok E [] (trace s) \<or> failed (status s) \<noteq> []) \<longrightarrow>
      exit_code (main_mount E table k r w a) = 1"
    by (metis finish.inject(3))
  from 1 2 have 5: "(\<forall>s. main_mount E table k r w a \<noteq> ParserExit s) \<longrightarrow>
      exit_code (main_mount E table k r w a) = 1"
    by blast
  from 1 2 3 4 5 b show ?thesis by (intro conjI)
qed

theorem C5_exit_code_witness:
  "(\<exists>s. main_mount (env_const 0 []) [toy_row (u ''a'')] toy_key 3 5 (mount_args [u ''a'']) =
          ParserExit s \<and>
        list_all (\<lambda>n. n \<in> set (map r_name [toy_row (u ''a'')])) (arg_names (mount_args [u ''a''])) \<and>
        runs_ok (env_const 0 []) [] (trace s) \<and> failed (status s) = [] \<and>
        success (status s) = [u ''a'']) \<and>
   exit_code (main_mount (env_const 0 []) [toy_row (u ''a'')] toy_key 3 5 (mount_args [u ''a''])) = 0 \<and>
   \<not> arg_all (mount_args [u ''ghost'', u ''a'']) \<and>
   \<not> list_all (\<lambda>n. n \<in> set (map r_name [toy_row (u ''a'')]))
        (arg_names (mount_args [u ''ghost'', u ''a''])) \<and>
   exit_code (main_mount (env_const 0 []) [toy_row (u ''a'')] toy_key 3 5
                (mount_args [u ''ghost'', u ''a''])) = 1 \<and>
   run_flaky = ParserExit (exited run_flaky) \<and>
   \<not> runs_ok env_flaky [] (trace (exited run_flaky)) \<and>
   exit_code run_flaky = 1 \<and>
   \<not> path_exists env_not_root [] cifstabdir \<and>
   makedirs env_not_root [] cifstabdir = Some PermissionError \<and>
   exit_code (main_mount env_not_root [toy_row (u ''a'')] toy_key 3 5 (mount_args [u ''a''])) = 1"
proof -
  let ?E = "env_const 0 []"
  let ?T = "[toy_row (u ''a'')]"
  let ?s = "fresh 3 5 ?T"
  let ?a = "mount_args [u ''a'']"
  let ?g = "mount_args [u ''ghost'', u ''a'']"
  let ?c = "toy_credentials (u ''a'')"
  let ?r = "record_success (u ''a'') (set_attempts (u ''a'') 1 (emit (Spawn (mount_cmd ?c))
              (set_attempts (u ''a'') 0 (emit (Syslog (u ''Attempting mount '' @ u ''a'')) ?s))))"
  have i: "init ?E ?T toy_key 3 5 = Inr ?s"
    by (simp add: init_def env_const_def fresh_def)
  have k: "key ?s = toy_key" "cifstab ?s = map toy_row [u ''a'']"
    by (simp_all add: fresh_def)
  have g: "getcredentials ?s (u ''a'') = Inr (Some ?c)"
    using getcredentials_toy [OF k scalar_literals(7)] by simp
  have u: "\<not> arg_u ?a" by (simp add: mount_args_def)
  have "mount ?E ?a ?s = mount_names ?E ?a [u ''a''] ?s"
    by (simp add: mount_def mount_args_def)
  also have "\<dots> = mount_names ?E ?a [] ?r"
    by (rule mount_names_first_run_succeeds [OF g u, where err = "[]"])
       (simp_all add: env_const_def fresh_def)
  finally have m: "mount ?E ?a ?s = Inr ?r" by simp
  have e: "error (status ?r) = 0" by (simp add: state_defs)
  have p: "main_mount ?E ?T toy_key 3 5 ?a = ParserExit ?r"
    using i m e by (simp add: main_mount_def checkstatus_def)
  have st: "list_all (\<lambda>n. n \<in> set (map r_name ?T)) (arg_names ?a)"
    by (simp add: mount_args_def toy_row_def)
  have ok: "runs_ok ?E [] (trace ?r) \<and> failed (status ?r) = [] \<and> success (status ?r) = [u ''a'']"
    by (simp add: state_defs env_const_def)
  from p st ok have 1: "\<exists>s. main_mount ?E ?T toy_key 3 5 ?a = ParserExit s \<and>
        list_all (\<lambda>n. n \<in> set (map r_name ?T)) (arg_names ?a) \<and>
        runs_ok ?E [] (trace s) \<and> failed (status s) = [] \<and> success (status s) = [u ''a'']"
    by blast
  from C5_exit_code [of ?E ?T toy_key 3 5 ?a] 1
  have 2: "exit_code (main_mount ?E ?T toy_key 3 5 ?a) = 0"
    by blast
  have 3: "\<not> arg_all ?g \<and> \<not> list_all (\<lambda>n. n \<in> set (map r_name ?T)) (arg_names ?g)"
    using neq_names by (simp add: mount_args_def toy_row_def)
  from C5_exit_code [of ?E ?T toy_key 3 5 ?g] 3
  have 4: "exit_code (main_mount ?E ?T toy_key 3 5 ?g) = 1"
    by blast
  have 5: "run_flaky = ParserExit (exited run_flaky) \<and>
      \<not> runs_ok env_flaky [] (trace (exited run_flaky))"
    using run_flaky_eq by simp
  from C5_exit_code [of env_flaky ?T toy_key 3 5 ?a] 5
  have 6: "exit_code run_flaky = 1"
    unfolding run_flaky_def by blast
  have 7: "\<not> path_exists env_not_root [] cifstabdir \<and>
     makedirs env_not_root [] cifstabdir = Some PermissionError"
    by (simp add: env_not_root_def)
  from C5_exit_code [of env_not_root ?T toy_key 3 5 ?a] 7
  have 8: "exit_code (main_mount env_not_root ?T toy_key 3 5 ?a) = 1"
    by blast
  from 1 2 3 4 5 6 7 8 show ?thesis by (intro conjI) simp_all
qed

text \<open>
  Claim C8. For an explicit list of names, \<open>mount\<close> processes the list without
  duplicates, every name at the place of its first occurrence: \<open>list(dict.fromkeys(names))\<close>
  is that list, it is distinct and has the same elements; and when \<open>mount\<close> returns, every
  requested name that is in the table has been added exactly once to \<open>success\<close> or
  \<open>failed\<close>, that is, \<open>execute\<close> has run exactly once for it, however often the name was
  given. For \<open>["a","a","b"]\<close> the commands run are the one for \<open>a\<close>, then the one for
  \<open>b\<close>.
\<close>

theorem C8_dedup:
  assumes "\<not> arg_all a"
  shows "mount E a self = mount_names E a (first_occurrences (arg_names a)) self \<and>
         distinct (first_occurrences (arg_names a)) \<and>
         set (first_occurrences (arg_names a)) = set (arg_names a) \<and>
         (\<forall>s n. mount E a self = Inr s \<longrightarrow>
            count (mset (success (status s) @ failed (status s))) n =
              count (mset (success (status self) @ failed (status self))) n +
              (if n \<in> set (arg_names a) \<and> getcredentials self n \<noteq> Inr None then 1 else 0))"
proof (intro conjI allI impI)
  show eq: "mount E a self = mount_names E a (first_occurrences (arg_names a)) self"
    using assms fromkeys_first_occurrences [of "[]" "arg_names a"]
    by (simp add: mount_def)
  show "distinct (first_occurrences (arg_names a))"
    by (rule distinct_first_occurrences)
  show "set (first_occurrences (arg_names a)) = set (arg_names a)"
    by (rule set_first_occurrences)
  fix s n
  assume "mount E a self = Inr s"
  with eq have "mount_names E a (first_occurrences (arg_names a)) self = Inr s" by simp
  from mount_names_done [OF this]
  show "count (mset (success (status s) @ failed (status s))) n =
          count (mset (success (status self) @ failed (status self))) n +
          (if n \<in> set (arg_names a) \<and> getcredentials self n \<noteq> Inr None then 1 else 0)"
    using count_filter_distinct [OF distinct_first_occurrences,
        of "\<lambda>n. getcredentials self n \<noteq> Inr None" "arg_names a" n]
    by (simp add: set_first_occurrences)
qed

theorem C8_dedup_witness:
  "\<not> arg_all (mount_args [u ''a'', u ''a'', u ''b'']) \<and>
   first_occurrences (arg_names (mount_args [u ''a'', u ''a'', u ''b''])) = [u ''a'', u ''b''] \<and>
   (\<exists>s. mount (env_const 0 []) (mount_args [u ''a'', u ''a'', u ''b''])
           (fresh 3 5 [toy_row (u ''a''), toy_row (u ''b'')]) = Inr s \<and>
        spawned (trace s) =
          [mount_cmd (toy_credentials (u ''a'')), mount_cmd (toy_credentials (u ''b''))] \<and>
        success (status s) = [u ''a'', u ''b''] \<and> failed (status s) = [] \<and>
        attempts (status s) (u ''a'') = Some 1 \<and> attempts (status s) (u ''b'') = Some 1)"
proof -
  let ?E = "env_const 0 []"
  let ?a = "mount_args [u ''a'', u ''a'', u ''b'']"
  let ?s = "fresh 3 5 [toy_row (u ''a''), toy_row (u ''b'')]"
  let ?ca = "toy_credentials (u ''a'')"
  let ?cb = "toy_credentials (u ''b'')"
  let ?r = "record_success (u ''a'') (set_attempts (u ''a'') 1 (emit (Spawn (mount_cmd ?ca))
              (set_attempts (u ''a'') 0 (emit (Syslog (u ''Attempting mount '' @ u ''a'')) ?s))))"
  let ?q = "record_success (u ''b'') (set_attempts (u ''b'') 1 (emit (Spawn (mount_cmd ?cb))
              (set_attempts (u ''b'') 0 (emit (Syslog (u ''Attempting mount '' @ u ''b'')) ?r))))"
  have n: "\<not> arg_all ?a" by (simp add: mount_args_def)
  have f: "first_occurrences (arg_names ?a) = [u ''a'', u ''b'']"
    using neq_names by (simp add: mount_args_def)
  have u: "\<not> arg_u ?a" by (simp add: mount_args_def)
  have k: "key ?s = toy_key" "cifstab ?s = map toy_row [u ''a'', u ''b'']"
    by (simp_all add: fresh_def)
  have ga: "getcredentials ?s (u ''a'') = Inr (Some ?ca)"
    using getcredentials_toy [OF k scalar_literals(7)] by simp
  have kr: "key ?r = toy_key" "cifstab ?r = map toy_row [u ''a'', u ''b'']"
    by (simp_all add: state_defs)
  have gb: "getcredentials ?r (u ''b'') = Inr (Some ?cb)"
    using getcredentials_toy [OF kr scalar_literals(8)] by simp
  from C8_dedup [OF n, of ?E ?s]
  have "mount ?E ?a ?s = mount_names ?E ?a (first_occurrences (arg_names ?a)) ?s"
    by (rule conjunct1)
  also have "\<dots> = mount_names ?E ?a [u ''a'', u ''b''] ?s"
    by (simp only: f)
  also have "\<dots> = mount_names ?E ?a [u ''b''] ?r"
    by (rule mount_names_first_run_succeeds [OF ga u, where err = "[]"])
       (simp_all add: env_const_def fresh_def)
  also have "\<dots> = mount_names ?E ?a [] ?q"
    by (rule mount_names_first_run_succeeds [OF gb u, where err = "[]"])
       (simp_all add: env_const_def state_defs)
  finally have m: "mount ?E ?a ?s = Inr ?q" by simp
  have "spawned (trace ?q) = [mount_cmd ?ca, mount_cmd ?cb] \<and>
        success (status ?q) = [u ''a'', u ''b''] \<and> failed (status ?q) = [] \<and>
        attempts (status ?q) (u ''a'') = Some 1 \<and> attempts (status ?q) (u ''b'') = Some 1"
    using neq_names by (simp add: state_defs spawned_append)
  with n f m show ?thesis by blast
qed

section \<open>Claim about the lists of the status\<close>

text \<open>
  Claim C10. When a call of \<open>execute\<close> for a name returns, the name has been appended to
  exactly one of the lists \<open>success\<close> and \<open>failed\<close>, with the count of that list
  incremented and the other list and count as they were; so if each count was the
  length of its list before the call, it is so after it. The counts are the lengths in
  the new status, nothing but \<open>execute\<close> changes them, and they are the lengths when
  the process of \<open>mount\<close> reaches its exit.
\<close>

theorem C10_exactly_one_list:
  "(execute E cmd name retryon er self = Inr s \<longrightarrow>
      ((success (status s) = success (status self) @ [name] \<and>
        failed (status s) = failed (status self) \<and>
        successcount (status s) = successcount (status self) + 1 \<and>
        failedcount (status s) = failedcount (status self)) \<noteq>
       (failed (status s) = failed (status self) @ [name] \<and>
        success (status s) = success (status self) \<and>
        failedcount (status s) = failedcount (status self) + 1 \<and>
        successcount (status s) = successcount (status self))) \<and>
      (counts_ok (status self) \<longrightarrow> counts_ok (status s))) \<and>
   counts_ok new_status \<and>
   (main_mount E table k r w a = ParserExit s' \<longrightarrow> counts_ok (status s'))"
proof (intro conjI impI)
  assume e: "execute E cmd name retryon er self = Inr s"
  from execute_lists [OF e]
  show "(success (status s) = success (status self) @ [name] \<and>
        failed (status s) = failed (status self) \<and>
        successcount (status s) = successcount (status self) + 1 \<and>
        failedcount (status s) = failedcount (status self)) \<noteq>
       (failed (status s) = failed (status self) @ [name] \<and>
        success (status s) = success (status self) \<and>
        failedcount (status s) = failedcount (status self) + 1 \<and>
        successcount (status s) = successcount (status self))"
    by (rule conjunct1)
  assume "counts_ok (status self)"
  with e show "counts_ok (status s)" by (rule execute_counts_ok)
next
  show "counts_ok new_status" by (simp add: counts_ok_def new_status_def)
next
  assume "main_mount E table k r w a = ParserExit s'"
  then show "counts_ok (status s')" by (rule main_mount_counts_ok)
qed

theorem C10_exactly_one_list_witness:
  "\<exists>s. execute (env_const 0 []) (u ''mount'') (u ''fileserver'')
          (map fst retryschema_mount) 0 (fresh 3 5 []) = Inr s \<and>
        counts_ok (status (fresh 3 5 [])) \<and>
        success (status s) = [u ''fileserver''] \<and> failed (status s) = [] \<and>
        successcount (status s) = 1 \<and> failedcount (status s) = 0 \<and>
        counts_ok (status s)"
proof -
  have "\<exists>s. execute (env_const 0 []) (u ''mount'') (u ''fileserver'')
          (map fst retryschema_mount) 0 (fresh 3 5 []) = Inr s \<and> success (status s) = [u ''fileserver'']"
    by (simp add: execute_def execute_loop.simps body_defs env_const_def fresh_def
          new_status_def record_success_def)
  then obtain s where e: "execute (env_const 0 []) (u ''mount'') (u ''fileserver'')
          (map fst retryschema_mount) 0 (fresh 3 5 []) = Inr s"
    and s: "success (status s) = [u ''fileserver'']"
    by blast
  have c: "counts_ok (status (fresh 3 5 []))"
    by (simp add: counts_ok_def fresh_def new_status_def)
  note t = C10_exactly_one_list [THEN conjunct1, rule_format, OF e]
  from t c have "counts_ok (status s)" by blast
  moreover from t s have "failed (status s) = [] \<and> successcount (status s) = 1 \<and>
      failedcount (status s) = 0"
    by (auto simp: fresh_def new_status_def)
  ultimately show ?thesis using e s c by blast
qed

end
